theory Spec2Isabelle
  imports Main "HOL-Library.Word" "HOL-Library.Sublist"
begin

section \<open>The request/response engine of snapd-client.c\<close>

text \<open>
  A shallow embedding of the parts of \<^verbatim>\<open>snapd-glib/snapd-client.c\<close> that carry the
  request queue, the frame decoder, the change-polling state machine and the
  Accept-Language header. C strings and byte buffers are \<open>string\<close> (a list of 8-bit
  characters); a nullable \<^verbatim>\<open>gchar *\<close> is a \<open>string option\<close>.
\<close>

subsection \<open>Accept-Language (\<^verbatim>\<open>posix_lang_to_rfc2616\<close>, \<^verbatim>\<open>add_quality_value\<close>, \<^verbatim>\<open>get_accept_languages\<close>)\<close>

text \<open>\<^verbatim>\<open>g_ascii_tolower\<close>: only the ASCII letters A-Z change.\<close>

definition g_ascii_tolower :: "char \<Rightarrow> char" where
  "g_ascii_tolower c =
     (let n = (of_char c :: nat) in if 65 \<le> n \<and> n \<le> 90 then char_of (n + 32) else c)"

definition g_ascii_strdown :: "string \<Rightarrow> string" where
  "g_ascii_strdown s = map g_ascii_tolower s"

text \<open>\<^verbatim>\<open>g_strdelimit (s, delimiters, new_delim)\<close>: every character of \<open>s\<close> that occurs in
  \<open>delimiters\<close> is replaced by \<open>new_delim\<close>.\<close>

definition g_strdelimit :: "string \<Rightarrow> string \<Rightarrow> char \<Rightarrow> string" where
  "g_strdelimit s delimiters new_delim = map (\<lambda>c. if c \<in> set delimiters then new_delim else c) s"

text \<open>\<^verbatim>\<open>strchr (s, c) != NULL\<close>.\<close>

definition strchr :: "string \<Rightarrow> char \<Rightarrow> bool" where
  "strchr s c = (c \<in> set s)"

definition posix_lang_to_rfc2616 :: "string \<Rightarrow> string option" where
  "posix_lang_to_rfc2616 language =
     (if strchr language (CHR ''.'') \<or> strchr language (CHR ''@'') then None
      else if language = ''C'' then None
      else Some (g_strdelimit (g_ascii_strdown language) ''_'' (CHR ''-'')))"

text \<open>Decimal digits of a natural number, as \<^verbatim>\<open>printf ("%d")\<close> prints a non-negative int.\<close>

definition digit_char :: "nat \<Rightarrow> char" where
  "digit_char d = char_of (48 + d)"

fun printf_nat :: "nat \<Rightarrow> string" where
  "printf_nat n = (if n < 10 then [digit_char n] else printf_nat (n div 10) @ [digit_char (n mod 10)])"

declare printf_nat.simps [simp del]

text \<open>\<^verbatim>\<open>printf ("%d")\<close> and \<^verbatim>\<open>printf ("%02d")\<close> (zero padding to width 2, the sign counted
  in the width).\<close>

definition printf_d :: "int \<Rightarrow> string" where
  "printf_d q = (if q < 0 then CHR ''-'' # printf_nat (nat (- q)) else printf_nat (nat q))"

definition printf_02d :: "int \<Rightarrow> string" where
  "printf_02d q =
     (if q < 0 then CHR ''-'' # replicate (1 - length (printf_nat (nat (- q)))) (CHR ''0'') @ printf_nat (nat (- q))
      else replicate (2 - length (printf_nat (nat q))) (CHR ''0'') @ printf_nat (nat q))"

text \<open>C's \<^verbatim>\<open>%\<close> and \<^verbatim>\<open>/\<close> on int truncate towards zero.\<close>

definition c_div :: "int \<Rightarrow> int \<Rightarrow> int" where
  "c_div a b = (if (a < 0) = (b < 0) then \<bar>a\<bar> div \<bar>b\<bar> else - (\<bar>a\<bar> div \<bar>b\<bar>))"

definition c_mod :: "int \<Rightarrow> int \<Rightarrow> int" where
  "c_mod a b = a - b * c_div a b"

definition add_quality_value :: "string \<Rightarrow> int \<Rightarrow> string" where
  "add_quality_value str quality =
     (if quality \<ge> 0 \<and> quality < 100 then
        (if c_mod quality 10 \<noteq> 0 then str @ '';q=0.'' @ printf_02d quality
         else str @ '';q=0.'' @ printf_d (c_div quality 10))
      else str)"

text \<open>The first loop of \<^verbatim>\<open>get_accept_languages\<close>: the converted tags that are not NULL,
  in order.\<close>

fun build_langs :: "string list \<Rightarrow> string list" where
  "build_langs [] = []"
| "build_langs (name # names) =
     (case posix_lang_to_rfc2616 name of
        None \<Rightarrow> build_langs names
      | Some lang \<Rightarrow> lang # build_langs names)"

definition choose_delta :: "nat \<Rightarrow> int" where
  "choose_delta len = (if len < 10 then 10 else if len < 20 then 5 else 1)"

text \<open>\<^verbatim>\<open>100 - i * delta\<close> with \<^verbatim>\<open>guint i\<close> and \<^verbatim>\<open>int delta\<close>: the arithmetic is done in
  unsigned 32 bits and the result is converted to \<^verbatim>\<open>int\<close>.\<close>

definition quality_at :: "nat \<Rightarrow> int \<Rightarrow> int" where
  "quality_at i delta = sint ((100 :: 32 word) - word_of_nat i * word_of_int delta)"

text \<open>The second loop: entry \<open>i\<close> gets quality \<open>100 - i * delta\<close>.\<close>

fun add_qualities :: "nat \<Rightarrow> int \<Rightarrow> string list \<Rightarrow> string list" where
  "add_qualities i delta [] = []"
| "add_qualities i delta (lang # langs) =
     add_quality_value lang (quality_at i delta) # add_qualities (Suc i) delta langs"

text \<open>\<^verbatim>\<open>g_strjoinv (separator, strv)\<close>.\<close>

fun g_strjoinv :: "string \<Rightarrow> string list \<Rightarrow> string" where
  "g_strjoinv sep [] = []"
| "g_strjoinv sep [x] = x"
| "g_strjoinv sep (x # y # ys) = x @ sep @ g_strjoinv sep (y # ys)"

text \<open>\<^verbatim>\<open>get_accept_languages\<close>, with the result of \<^verbatim>\<open>g_get_language_names ()\<close> as its
  argument; \<open>accept_language_entries\<close> is the array \<^verbatim>\<open>langs\<close> after both loops.\<close>

definition accept_language_entries :: "string list \<Rightarrow> string list" where
  "accept_language_entries lang_names =
     (let langs = build_langs lang_names;
          delta = choose_delta (length langs)
      in add_qualities 0 delta langs)"

definition get_accept_languages :: "string list \<Rightarrow> string" where
  "get_accept_languages lang_names =
     (let langs = accept_language_entries lang_names
      in if length langs = 0 then ''en'' else g_strjoinv '', '' langs)"

subsection \<open>Requests and the client\<close>

text \<open>Error domains and codes the engine produces (\<^verbatim>\<open>SNAPD_ERROR\<close>, and \<^verbatim>\<open>G_IO_ERROR\<close> for
  a cancelled \<^verbatim>\<open>GCancellable\<close>); a \<^verbatim>\<open>GError\<close> is a code with its message.\<close>

datatype error_code =
    SNAPD_ERROR_CONNECTION_FAILED
  | SNAPD_ERROR_WRITE_FAILED
  | SNAPD_ERROR_READ_FAILED
  | SNAPD_ERROR_FAILED
  | G_IO_ERROR_CANCELLED

type_synonym gerror = "error_code \<times> string"

text \<open>
  Where what the C program does next is no longer determined by the bytes and requests it
  was given: a read through \<^verbatim>\<open>NULL\<close> or through a pointer computed from \<^verbatim>\<open>NULL\<close>, a read
  outside the bytes received, and a length computed from the address of the buffer.
\<close>

datatype fault = NullDereference | ReadsPastData | IndeterminateLength

text \<open>\<^verbatim>\<open>SnapdTask\<close> and \<^verbatim>\<open>SnapdChange\<close>, with the properties the engine sets. A \<^verbatim>\<open>GDateTime\<close>
  is an instant (an integer); \<^verbatim>\<open>NULL\<close> strings, times and arrays are \<open>None\<close>.\<close>

record snapd_task =
  task_id :: "string option"
  task_kind :: "string option"
  task_summary :: "string option"
  task_status :: "string option"
  task_progress_label :: "string option"
  task_progress_done :: int
  task_progress_total :: int
  task_spawn_time :: "int option"
  task_ready_time :: "int option"

record snapd_change =
  chg_id :: "string option"
  chg_kind :: "string option"
  chg_summary :: "string option"
  chg_status :: "string option"
  chg_tasks :: "snapd_task list option"
  chg_ready :: bool
  chg_spawn_time :: "int option"
  chg_ready_time :: "int option"

text \<open>
  The request classes the engine tells apart: \<^verbatim>\<open>SnapdRequestAsync\<close> (with all its
  subclasses), the two poll requests \<^verbatim>\<open>SnapdRequestGetChange\<close> and
  \<^verbatim>\<open>SnapdRequestPostChange\<close>, and every other (synchronous) endpoint request.
\<close>

datatype request_class = REQUEST_SYNC | REQUEST_GET_CHANGE | REQUEST_POST_CHANGE | REQUEST_ASYNC

text \<open>
  One request object: the fields of \<^verbatim>\<open>SnapdRequestPrivate\<close>, of
  \<^verbatim>\<open>SnapdRequestGetChange\<close>/\<^verbatim>\<open>SnapdRequestPostChange\<close> (\<open>target_change_id\<close>, \<open>action\<close>)
  and of \<^verbatim>\<open>SnapdRequestAsync\<close>. A pointer that is only tested against \<^verbatim>\<open>NULL\<close> is a
  \<open>bool\<close>. \<open>cancellable\<close> is \<open>None\<close> for \<^verbatim>\<open>NULL\<close> and otherwise holds whether the
  \<^verbatim>\<open>GCancellable\<close> is in the cancelled state.
\<close>

record snapd_request =
  req_class :: request_class
  read_source :: bool
  cancellable :: "bool option"
  responded :: bool
  ready_callback :: bool
  error :: "gerror option"
  response_body :: string
  target_change_id :: "string option"
  action :: "string option"
  change_id :: "string option"
  poll_source :: bool
  change :: "snapd_change option"
  sent_cancel :: bool
  progress_callback :: bool
  async_data :: "string option"

text \<open>
  The client (\<^verbatim>\<open>SnapdClientPrivate\<close>) together with what the engine does to its
  surroundings. Requests live in \<open>heap\<close> at an address; \<open>requests\<close> is the \<^verbatim>\<open>GList\<close> of
  their addresses. \<open>buffer\<close> holds the first \<^verbatim>\<open>n_read\<close> bytes of the byte array.
  \<open>idle_sources\<close> are the idle sources attached to the main context and not yet
  dispatched, \<open>ready_calls\<close> the ready callbacks invoked, \<open>timeouts\<close> the poll timers
  attached, \<open>progress_calls\<close> the progress callbacks invoked, \<open>warnings\<close> the
  \<^verbatim>\<open>g_warning\<close> messages, \<open>sent_requests\<close> the requests \<^verbatim>\<open>send_request\<close> was called
  with, \<open>written\<close> the requests written to the socket (method, change id, action).
\<close>

record snapd_client =
  snapd_socket :: bool
  requests :: "nat list"
  heap :: "nat \<Rightarrow> snapd_request"
  next_address :: nat
  buffer :: string
  idle_sources :: "nat list"
  ready_calls :: "nat list"
  timeouts :: "nat list"
  progress_calls :: "(nat \<times> snapd_change) list"
  warnings :: "string list"
  sent_requests :: "nat list"
  written :: "(string \<times> string option \<times> string option) list"



definition snapd_request_respond :: "snapd_client \<Rightarrow> nat \<Rightarrow> gerror option \<Rightarrow> snapd_client" where
  "snapd_request_respond c request err =
     (if responded (heap c request) then c
      else c\<lparr>heap := (heap c)(request := (heap c request)\<lparr>responded := True, error := err\<rparr>),
             idle_sources := idle_sources c @ [request]\<rparr>)"

text \<open>\<^verbatim>\<open>g_list_remove\<close> removes the first element that holds the pointer.\<close>

definition snapd_request_complete_unlocked :: "snapd_client \<Rightarrow> nat \<Rightarrow> gerror option \<Rightarrow> snapd_client" where
  "snapd_request_complete_unlocked c request err =
     (let c1 = c\<lparr>heap := (heap c)(request := (heap c request)\<lparr>read_source := False\<rparr>)\<rparr>;
          c2 = snapd_request_respond c1 request err
      in c2\<lparr>requests := remove1 request (requests c2)\<rparr>)"

definition snapd_request_complete :: "snapd_client \<Rightarrow> nat \<Rightarrow> gerror option \<Rightarrow> snapd_client" where
  "snapd_request_complete c request err = snapd_request_complete_unlocked c request err"

definition schedule_poll :: "snapd_client \<Rightarrow> nat \<Rightarrow> snapd_client" where
  "schedule_poll c request =
     c\<lparr>heap := (heap c)(request := (heap c request)\<lparr>poll_source := True\<rparr>),
       timeouts := timeouts c @ [request]\<rparr>"

definition SNAPD_IS_REQUEST_ASYNC :: "snapd_request \<Rightarrow> bool" where
  "SNAPD_IS_REQUEST_ASYNC r = (req_class r = REQUEST_ASYNC)"

text \<open>The loop of \<^verbatim>\<open>complete_all_requests\<close> over the copy of the request list.\<close>

fun complete_all_loop :: "snapd_client \<Rightarrow> nat list \<Rightarrow> gerror \<Rightarrow> snapd_client" where
  "complete_all_loop c [] err = c"
| "complete_all_loop c (request # link) err =
     (if SNAPD_IS_REQUEST_ASYNC (heap c request)
      then complete_all_loop (schedule_poll c request) link err
      else complete_all_loop (snapd_request_complete_unlocked c request (Some err)) link err)"

definition complete_all_requests :: "snapd_client \<Rightarrow> gerror \<Rightarrow> snapd_client" where
  "complete_all_requests c err =
     (let c1 = c\<lparr>snapd_socket := False\<rparr>
      in complete_all_loop c1 (requests c1) err)"

text \<open>\<^verbatim>\<open>g_cancellable_is_cancelled\<close> and \<^verbatim>\<open>g_cancellable_set_error_if_cancelled\<close>; both
  accept \<^verbatim>\<open>NULL\<close>.\<close>

definition g_cancellable_is_cancelled :: "bool option \<Rightarrow> bool" where
  "g_cancellable_is_cancelled cn = (cn = Some True)"

definition cancelled_error :: gerror where
  "cancelled_error = (G_IO_ERROR_CANCELLED, ''Operation was cancelled'')"

definition g_cancellable_set_error_if_cancelled :: "bool option \<Rightarrow> gerror option" where
  "g_cancellable_set_error_if_cancelled cn =
     (if g_cancellable_is_cancelled cn then Some cancelled_error else None)"

subsection \<open>Deep comparison of change snapshots\<close>

definition times_equal :: "int option \<Rightarrow> int option \<Rightarrow> bool" where
  "times_equal time1 time2 =
     (case (time1, time2) of
        (Some t1, Some t2) \<Rightarrow> t1 = t2
      | _ \<Rightarrow> time1 = time2)"

text \<open>\<^verbatim>\<open>g_strcmp0 (a, b) == 0\<close>: \<^verbatim>\<open>NULL\<close> equals only \<^verbatim>\<open>NULL\<close>.\<close>

definition g_strcmp0_is_0 :: "string option \<Rightarrow> string option \<Rightarrow> bool" where
  "g_strcmp0_is_0 a b = (a = b)"

text \<open>The last two conjuncts both read the spawn time, as in the source.\<close>

definition tasks_equal :: "snapd_task \<Rightarrow> snapd_task \<Rightarrow> bool" where
  "tasks_equal task1 task2 =
     (g_strcmp0_is_0 (task_id task1) (task_id task2) \<and>
      g_strcmp0_is_0 (task_kind task1) (task_kind task2) \<and>
      g_strcmp0_is_0 (task_summary task1) (task_summary task2) \<and>
      g_strcmp0_is_0 (task_status task1) (task_status task2) \<and>
      g_strcmp0_is_0 (task_progress_label task1) (task_progress_label task2) \<and>
      task_progress_done task1 = task_progress_done task2 \<and>
      task_progress_total task1 = task_progress_total task2 \<and>
      times_equal (task_spawn_time task1) (task_spawn_time task2) \<and>
      times_equal (task_spawn_time task1) (task_spawn_time task2))"

text \<open>The loop over the two task arrays, entered when they have the same length.\<close>

fun tasks_all_equal :: "snapd_task list \<Rightarrow> snapd_task list \<Rightarrow> bool" where
  "tasks_all_equal (t1 # ts1) (t2 # ts2) = (if \<not> tasks_equal t1 t2 then False else tasks_all_equal ts1 ts2)"
| "tasks_all_equal _ _ = True"

definition changes_equal :: "snapd_change option \<Rightarrow> snapd_change option \<Rightarrow> bool" where
  "changes_equal change1 change2 =
     (case (change1, change2) of
        (Some c1, Some c2) \<Rightarrow>
          (case (chg_tasks c1, chg_tasks c2) of
             (Some tasks1, Some tasks2) \<Rightarrow>
               length tasks1 = length tasks2 \<and> tasks_all_equal tasks1 tasks2
           | _ \<Rightarrow> chg_tasks c1 = chg_tasks c2) \<and>
          g_strcmp0_is_0 (chg_id c1) (chg_id c2) \<and>
          g_strcmp0_is_0 (chg_kind c1) (chg_kind c2) \<and>
          g_strcmp0_is_0 (chg_summary c1) (chg_summary c2) \<and>
          g_strcmp0_is_0 (chg_status c1) (chg_status c2) \<and>
          chg_ready c1 = chg_ready c2 \<and>
          times_equal (chg_spawn_time c1) (chg_spawn_time c2) \<and>
          times_equal (chg_spawn_time c1) (chg_spawn_time c2)
      | _ \<Rightarrow> change1 = change2)"

subsection \<open>Sending the engine's own requests, cancellation, the first response\<close>

text \<open>What the socket calls of one \<^verbatim>\<open>send_request\<close> do: whether \<^verbatim>\<open>g_socket_new\<close>,
  \<^verbatim>\<open>g_socket_connect\<close> and \<^verbatim>\<open>g_socket_send\<close> succeed, and the message of the error
  otherwise.\<close>

record io_outcome =
  socket_created :: bool
  socket_connected :: bool
  socket_sent :: bool
  io_message :: string

text \<open>A request as \<^verbatim>\<open>g_object_new\<close> leaves it, followed by
  \<^verbatim>\<open>setup_request (request, NULL, NULL, NULL)\<close>.\<close>

definition new_request :: "request_class \<Rightarrow> string option \<Rightarrow> string option \<Rightarrow> snapd_request" where
  "new_request cls cid act =
     \<lparr>req_class = cls, read_source = False, cancellable = None, responded = False,
      ready_callback = False, error = None, response_body = [], target_change_id = cid,
      action = act, change_id = None, poll_source = False, change = None,
      sent_cancel = False, progress_callback = False, async_data = None\<rparr>"

text \<open>The request line and action that \<^verbatim>\<open>generate_get_change_request\<close> and
  \<^verbatim>\<open>generate_post_change_request\<close> produce.\<close>

definition generate_request :: "snapd_request \<Rightarrow> string \<times> string option \<times> string option" where
  "generate_request r =
     (if req_class r = REQUEST_GET_CHANGE then (''GET'', target_change_id r, None)
      else (''POST'', target_change_id r, action r))"

text \<open>
  \<^verbatim>\<open>send_request\<close> for a request set up with a \<^verbatim>\<open>NULL\<close> cancellable, which is how the
  engine itself calls it (from \<^verbatim>\<open>async_poll_cb\<close> and \<^verbatim>\<open>send_cancel\<close>); the
  \<^verbatim>\<open>g_cancellable_connect\<close> step is skipped for such a request. The object is placed at
  the next free address.
\<close>

definition send_request :: "io_outcome \<Rightarrow> snapd_client \<Rightarrow> snapd_request \<Rightarrow> snapd_client" where
  "send_request io c r =
     (let request = next_address c;
          c1 = c\<lparr>next_address := Suc request,
                 heap := (heap c)(request := r),
                 requests := requests c @ [request],
                 sent_requests := sent_requests c @ [request]\<rparr>
      in if \<not> snapd_socket c1 \<and> \<not> socket_created io then
           snapd_request_complete c1 request
             (Some (SNAPD_ERROR_CONNECTION_FAILED, ''Unable to create snapd socket: '' @ io_message io))
         else if \<not> snapd_socket c1 \<and> \<not> socket_connected io then
           snapd_request_complete (c1\<lparr>snapd_socket := False\<rparr>) request
             (Some (SNAPD_ERROR_CONNECTION_FAILED, ''Unable to connect snapd socket: '' @ io_message io))
         else
           (let c2 = c1\<lparr>snapd_socket := True,
                         heap := (heap c1)(request := (heap c1 request)\<lparr>read_source := True\<rparr>)\<rparr>
            in if \<not> socket_sent io then
                 snapd_request_complete c2 request
                   (Some (SNAPD_ERROR_WRITE_FAILED, ''Failed to write to snapd: '' @ io_message io))
               else c2\<lparr>written := written c2 @ [generate_request r]\<rparr>))"

definition async_poll_cb :: "io_outcome \<Rightarrow> snapd_client \<Rightarrow> nat \<Rightarrow> snapd_client" where
  "async_poll_cb io c request =
     (let change_request = new_request REQUEST_GET_CHANGE (change_id (heap c request)) None;
          c1 = send_request io c change_request
      in c1\<lparr>heap := (heap c1)(request := (heap c1 request)\<lparr>poll_source := False\<rparr>)\<rparr>)"

definition send_cancel :: "io_outcome \<Rightarrow> snapd_client \<Rightarrow> nat \<Rightarrow> snapd_client" where
  "send_cancel io c request =
     (if sent_cancel (heap c request) then c
      else
        (let c1 = c\<lparr>heap := (heap c)(request := (heap c request)\<lparr>sent_cancel := True\<rparr>)\<rparr>;
             change_request = new_request REQUEST_POST_CHANGE (change_id (heap c1 request)) (Some ''abort'')
         in send_request io c1 change_request))"



text \<open>
  \<^verbatim>\<open>parse_async_response\<close>. \<open>reply\<close> is what \<^verbatim>\<open>snapd_request_parse_json_response\<close>
  followed by \<^verbatim>\<open>_snapd_json_get_async_result\<close> gives on the response: an error or the
  change id.
\<close>

definition parse_async_response :: "io_outcome \<Rightarrow> snapd_client \<Rightarrow> nat \<Rightarrow> gerror + string \<Rightarrow> snapd_client" where
  "parse_async_response io c request reply =
     (case reply of
        Inl err \<Rightarrow> snapd_request_complete c request (Some err)
      | Inr cid \<Rightarrow>
          (let c1 = c\<lparr>heap := (heap c)(request := (heap c request)\<lparr>change_id := Some cid\<rparr>)\<rparr>
           in if g_cancellable_is_cancelled (cancellable (heap c1 request))
              then send_cancel io c1 request
              else schedule_poll c1 request))"



subsection \<open>Poll responses (\<^verbatim>\<open>find_change_request\<close>, \<^verbatim>\<open>parse_change_response\<close>)\<close>

text \<open>\<^verbatim>\<open>strcmp\<close> dereferences both arguments: a \<^verbatim>\<open>NULL\<close> change id stops the program.\<close>

fun find_change_loop :: "(nat \<Rightarrow> snapd_request) \<Rightarrow> nat list \<Rightarrow> string option \<Rightarrow> fault + nat option" where
  "find_change_loop h [] cid = Inr None"
| "find_change_loop h (request # link) cid =
     (if SNAPD_IS_REQUEST_ASYNC (h request) then
        (case (change_id (h request), cid) of
           (Some a, Some b) \<Rightarrow> if a = b then Inr (Some request) else find_change_loop h link cid
         | _ \<Rightarrow> Inl NullDereference)
      else find_change_loop h link cid)"

definition find_change_request :: "snapd_client \<Rightarrow> string option \<Rightarrow> fault + nat option" where
  "find_change_request c cid = find_change_loop (heap c) (requests c) cid"

text \<open>
  What the JSON helpers of \<^verbatim>\<open>snapd-json.c\<close> return on the \<^verbatim>\<open>result\<close> object of a poll
  response; the helpers themselves are not part of this file and their results are taken
  as given. \<open>res_tasks\<close> is the \<^verbatim>\<open>tasks\<close> array, an element being \<open>None\<close> when the node is
  not an object and otherwise the task built from it. \<open>res_data\<close> is the \<^verbatim>\<open>data\<close> member
  when the object has one; \<open>res_has_err\<close> says whether it has an \<^verbatim>\<open>err\<close> member and
  \<open>res_err_string\<close> is \<^verbatim>\<open>_snapd_json_get_string (result, "err", "Unknown error")\<close>.
\<close>

record change_result =
  res_id :: "string option"
  res_kind :: "string option"
  res_summary :: "string option"
  res_status :: "string option"
  res_tasks :: "snapd_task option list"
  res_ready :: bool
  res_spawn_time :: "int option"
  res_ready_time :: "int option"
  res_data :: "string option"
  res_has_err :: bool
  res_err_string :: string

text \<open>The loop that builds the task array; it stops at the first node that is not an
  object.\<close>

fun build_tasks :: "snapd_task option list \<Rightarrow> snapd_task list option" where
  "build_tasks [] = Some []"
| "build_tasks (None # nodes) = None"
| "build_tasks (Some t # nodes) = map_option (Cons t) (build_tasks nodes)"

definition build_change :: "change_result \<Rightarrow> snapd_task list \<Rightarrow> snapd_change" where
  "build_change result tasks =
     \<lparr>chg_id = res_id result, chg_kind = res_kind result, chg_summary = res_summary result,
      chg_status = res_status result, chg_tasks = Some tasks, chg_ready = res_ready result,
      chg_spawn_time = res_spawn_time result, chg_ready_time = res_ready_time result\<rparr>"

text \<open>The block "Update caller with progress"; \<open>None\<close> when a task node is not an
  object.\<close>

definition update_progress :: "snapd_client \<Rightarrow> nat \<Rightarrow> change_result \<Rightarrow> snapd_client option" where
  "update_progress c parent result =
     (if progress_callback (heap c parent) then
        (case build_tasks (res_tasks result) of
           None \<Rightarrow> None
         | Some tasks \<Rightarrow>
             (let chg = build_change result tasks
              in if \<not> changes_equal (change (heap c parent)) (Some chg)
                 then Some (c\<lparr>heap := (heap c)(parent := (heap c parent)\<lparr>change := Some chg\<rparr>),
                              progress_calls := progress_calls c @ [(parent, chg)]\<rparr>)
                 else Some c))
      else Some c)"

text \<open>The block entered when the change is ready.\<close>

definition complete_ready :: "snapd_client \<Rightarrow> nat \<Rightarrow> nat \<Rightarrow> change_result \<Rightarrow> snapd_client" where
  "complete_ready c parent request result =
     (let c1 = (case res_data result of
                  Some node \<Rightarrow> c\<lparr>heap := (heap c)(parent := (heap c parent)\<lparr>async_data := Some node\<rparr>)\<rparr>
                | None \<Rightarrow> c);
          err = (case g_cancellable_set_error_if_cancelled (cancellable (heap c1 parent)) of
                   Some e \<Rightarrow> Some e
                 | None \<Rightarrow>
                     if res_has_err result then Some (SNAPD_ERROR_FAILED, res_err_string result)
                     else None)
      in snapd_request_complete (snapd_request_complete c1 parent err) request None)"

text \<open>
  \<^verbatim>\<open>parse_change_response\<close>. \<open>reply\<close> is what \<^verbatim>\<open>snapd_request_parse_json_response\<close>
  followed by \<^verbatim>\<open>_snapd_json_get_sync_result_o\<close> gives: an error or the result object.
  When no request in the list has the change id, \<^verbatim>\<open>parent\<close> is \<^verbatim>\<open>NULL\<close> and every path
  dereferences it.
\<close>

definition parse_change_response ::
  "snapd_client \<Rightarrow> nat \<Rightarrow> string option \<Rightarrow> gerror + change_result \<Rightarrow> fault + snapd_client" where
  "parse_change_response c request cid reply =
     (case find_change_request c cid of
        Inl f \<Rightarrow> Inl f
      | Inr None \<Rightarrow> Inl NullDereference
      | Inr (Some parent) \<Rightarrow>
          (case reply of
             Inl err \<Rightarrow>
               Inr (snapd_request_complete (snapd_request_complete c parent (Some err)) request None)
           | Inr result \<Rightarrow>
               if \<not> g_strcmp0_is_0 cid (res_id result) then
                 Inr (snapd_request_complete
                        (snapd_request_complete c parent
                           (Some (SNAPD_ERROR_READ_FAILED, ''Unexpected change ID returned'')))
                        request None)
               else
                 (case update_progress c parent result of
                    None \<Rightarrow>
                      Inr (snapd_request_complete
                             (snapd_request_complete c parent
                                (Some (SNAPD_ERROR_READ_FAILED, ''Unexpected task type'')))
                             request None)
                  | Some c1 \<Rightarrow>
                      if res_ready result then Inr (complete_ready c1 parent request result)
                      else Inr (snapd_request_complete (schedule_poll c1 parent) request None))))"

subsection \<open>Matching a response to a request\<close>

fun get_first_loop :: "(nat \<Rightarrow> snapd_request) \<Rightarrow> nat list \<Rightarrow> nat option" where
  "get_first_loop h [] = None"
| "get_first_loop h (request # link) =
     (if SNAPD_IS_REQUEST_ASYNC (h request) then
        (if change_id (h request) = None then Some request else get_first_loop h link)
      else Some request)"

definition get_first_request :: "snapd_client \<Rightarrow> nat option" where
  "get_first_request c = get_first_loop (heap c) (requests c)"

text \<open>
  The decoders outside this file, applied to the header bytes and the body of a response:
  \<open>soup_headers\<close> is \<^verbatim>\<open>soup_headers_parse_response\<close> followed by
  \<^verbatim>\<open>soup_message_headers_get_encoding\<close> and \<^verbatim>\<open>soup_message_headers_get_content_length\<close>
  (\<open>None\<close> when the headers do not parse); \<open>json_sync\<close> is the error, if any, with which
  the decoder of a synchronous endpoint completes its request; \<open>json_async\<close> and
  \<open>json_change\<close> are the replies \<^verbatim>\<open>parse_async_response\<close> and
  \<^verbatim>\<open>parse_change_response\<close> read.
\<close>

datatype soup_encoding =
    SOUP_ENCODING_UNRECOGNIZED
  | SOUP_ENCODING_NONE
  | SOUP_ENCODING_CONTENT_LENGTH
  | SOUP_ENCODING_EOF
  | SOUP_ENCODING_CHUNKED
  | SOUP_ENCODING_BYTERANGES

record collaborators =
  soup_headers :: "string \<Rightarrow> (soup_encoding \<times> nat) option"
  json_sync :: "string \<Rightarrow> string \<Rightarrow> gerror option"
  json_async :: "string \<Rightarrow> string \<Rightarrow> gerror + string"
  json_change :: "string \<Rightarrow> string \<Rightarrow> gerror + change_result"

text \<open>\<^verbatim>\<open>soup_message_body_append\<close> on the response body of the request's message.\<close>

definition append_response_body :: "snapd_client \<Rightarrow> nat \<Rightarrow> string \<Rightarrow> snapd_client" where
  "append_response_body c request bytes =
     c\<lparr>heap := (heap c)(request := (heap c request)\<lparr>response_body := response_body (heap c request) @ bytes\<rparr>)\<rparr>"

text \<open>
  \<^verbatim>\<open>parse_response\<close>: the virtual call on the request's class. Every decoder of a
  synchronous endpoint ends in \<^verbatim>\<open>snapd_request_complete\<close> on the request itself.
\<close>

definition parse_response ::
  "collaborators \<Rightarrow> io_outcome \<Rightarrow> string \<Rightarrow> snapd_client \<Rightarrow> nat \<Rightarrow> fault + snapd_client" where
  "parse_response d io headers c request =
     (let r = heap c request in
      case req_class r of
        REQUEST_SYNC \<Rightarrow> Inr (snapd_request_complete c request (json_sync d headers (response_body r)))
      | REQUEST_ASYNC \<Rightarrow> Inr (parse_async_response io c request (json_async d headers (response_body r)))
      | REQUEST_GET_CHANGE \<Rightarrow>
          parse_change_response c request (target_change_id r) (json_change d headers (response_body r))
      | REQUEST_POST_CHANGE \<Rightarrow>
          parse_change_response c request (target_change_id r) (json_change d headers (response_body r)))"

subsection \<open>C string functions the decoder uses\<close>

definition CRLF :: string where
  "CRLF = [CHR 0x0D, CHR 0x0A]"

definition NUL :: char where
  "NUL = CHR 0x00"

text \<open>
  \<^verbatim>\<open>g_strstr_len (haystack, haystack_len, needle)\<close> on the first \<^verbatim>\<open>haystack_len\<close> bytes:
  the offset of the first occurrence, searching while the needle still fits and the
  current byte is not NUL.
\<close>

fun g_strstr_len :: "string \<Rightarrow> string \<Rightarrow> nat option" where
  "g_strstr_len [] needle = (if needle = [] then Some 0 else None)"
| "g_strstr_len (c # cs) needle =
     (if needle = [] then Some 0
      else if length (c # cs) < length needle then None
      else if c = NUL then None
      else if take (length needle) (c # cs) = needle then Some 0
      else map_option Suc (g_strstr_len cs needle))"

text \<open>
  \<^verbatim>\<open>strstr\<close> is not bounded by a length: it answers \<^verbatim>\<open>NULL\<close> (\<open>None\<close>) at a NUL byte, or
  runs beyond the bytes received.
\<close>

fun strstr :: "string \<Rightarrow> string \<Rightarrow> fault + nat option" where
  "strstr [] needle = Inl ReadsPastData"
| "strstr (c # cs) needle =
     (if take (length needle) (c # cs) = needle then Inr (Some 0)
      else if c = NUL then Inr None
      else (case strstr cs needle of
              Inl f \<Rightarrow> Inl f
            | Inr None \<Rightarrow> Inr None
            | Inr (Some off) \<Rightarrow> Inr (Some (Suc off))))"

definition isspace :: "char \<Rightarrow> bool" where
  "isspace c = ((of_char c :: nat) = 32 \<or> (9 \<le> (of_char c :: nat) \<and> (of_char c :: nat) \<le> 13))"

definition is_xdigit :: "char \<Rightarrow> bool" where
  "is_xdigit c =
     (let n = (of_char c :: nat)
      in (48 \<le> n \<and> n \<le> 57) \<or> (65 \<le> n \<and> n \<le> 70) \<or> (97 \<le> n \<and> n \<le> 102))"

definition xdigit_value :: "char \<Rightarrow> nat" where
  "xdigit_value c =
     (let n = (of_char c :: nat)
      in if n \<le> 57 then n - 48 else if n \<le> 70 then n - 55 else n - 87)"

definition ULONG_MAX :: nat where
  "ULONG_MAX = 2 ^ 64 - 1"

text \<open>
  \<^verbatim>\<open>strtoul (s, NULL, 16)\<close> with a 64-bit \<^verbatim>\<open>unsigned long\<close>: white space, an optional
  sign, an optional \<^verbatim>\<open>0x\<close>, then hexadecimal digits up to the first other byte. When the
  bytes received end before such a byte, the scan goes on beyond them.
\<close>

definition strtoul16 :: "string \<Rightarrow> fault + nat" where
  "strtoul16 s =
     (let s1 = dropWhile isspace s;
          neg = (case s1 of c # _ \<Rightarrow> c = CHR ''-'' | [] \<Rightarrow> False);
          s2 = (case s1 of c # rest \<Rightarrow> if c = CHR ''-'' \<or> c = CHR ''+'' then rest else s1 | [] \<Rightarrow> s1);
          s3 = (case s2 of
                  c # x # rest \<Rightarrow> if c = CHR ''0'' \<and> (x = CHR ''x'' \<or> x = CHR ''X'') then rest else s2
                | _ \<Rightarrow> s2);
          digits = takeWhile is_xdigit s3;
          v = foldl (\<lambda>acc ch. acc * 16 + xdigit_value ch) 0 digits
      in if dropWhile is_xdigit s3 = [] then Inl ReadsPastData
         else if v > ULONG_MAX then Inr ULONG_MAX
         else if neg then Inr ((2 ^ 64 - v) mod 2 ^ 64)
         else Inr v)"

subsection \<open>The chunked body (\<^verbatim>\<open>have_chunked_body\<close>, \<^verbatim>\<open>compress_chunks\<close>)\<close>

text \<open>
  \<^verbatim>\<open>have_chunked_body (body, body_length)\<close>: \<open>body\<close> holds the \<^verbatim>\<open>body_length\<close> bytes from the
  pointer to the end of the bytes received, \<open>before\<close> the bytes of the buffer in front of
  the pointer (in \<^verbatim>\<open>read_cb\<close>, at first, the headers). The sizes are \<^verbatim>\<open>gsize\<close> and the
  pointer has 64 bits, so the sums wrap; the loop need not end, and \<open>None\<close> is the call that
  does not return. The pointer advances by \<^verbatim>\<open>chunk_header_length + chunk_length\<close>, without
  the two bytes that end the chunk. When that sum is \<open>2 ^ 64 - 1\<close> or \<open>2 ^ 64 - 2\<close> the
  check for space passes, the pointer moves one or two bytes backwards and
  \<^verbatim>\<open>body_length\<close> grows by as much.
\<close>

partial_function (option) have_chunked_body :: "string \<Rightarrow> string \<Rightarrow> (fault + bool) option" where
  "have_chunked_body before body =
     (case g_strstr_len body CRLF of
        None \<Rightarrow> Some (Inr False)
      | Some chunk_start \<Rightarrow>
          (case strtoul16 body of
             Inl f \<Rightarrow> Some (Inl f)
           | Inr chunk_length \<Rightarrow>
               if chunk_length = 0 then Some (Inr True)
               else if (chunk_start + 2 + chunk_length + 2) mod 2 ^ 64 > length body then Some (Inr False)
               else if (chunk_start + 2 + chunk_length) mod 2 ^ 64 \<le> length body then
                 have_chunked_body
                   (before @ take ((chunk_start + 2 + chunk_length) mod 2 ^ 64) body)
                   (drop ((chunk_start + 2 + chunk_length) mod 2 ^ 64) body)
               else if 2 ^ 64 - (chunk_start + 2 + chunk_length) mod 2 ^ 64 \<le> length before then
                 have_chunked_body
                   (take (length before - (2 ^ 64 - (chunk_start + 2 + chunk_length) mod 2 ^ 64)) before)
                   (drop (length before - (2 ^ 64 - (chunk_start + 2 + chunk_length) mod 2 ^ 64)) before
                    @ body)
               else Some (Inl ReadsPastData)))"

text \<open>
  The loop of \<^verbatim>\<open>compress_chunks\<close>: \<open>chunk_start\<close> is an offset into \<open>body\<close>, \<open>combined\<close> the
  bytes moved together so far. A chunk that extends beyond the bytes received is read
  from beyond them. Where \<^verbatim>\<open>strstr\<close> answers \<^verbatim>\<open>NULL\<close>, \<^verbatim>\<open>chunk_start\<close> becomes
  \<^verbatim>\<open>NULL + 2\<close>: after a size of zero the function returns with
  \<^verbatim>\<open>total_length = chunk_start - body\<close>, a number that depends on the address of the
  buffer, and after another size \<^verbatim>\<open>memmove\<close> reads through that pointer.
\<close>

function compress_loop :: "string \<Rightarrow> nat \<Rightarrow> string \<Rightarrow> fault + (string \<times> nat)" where
  "compress_loop body chunk_start combined =
     (case strtoul16 (drop chunk_start body) of
        Inl f \<Rightarrow> Inl f
      | Inr chunk_length \<Rightarrow>
          (case strstr (drop chunk_start body) CRLF of
             Inl f \<Rightarrow> Inl f
           | Inr None \<Rightarrow> if chunk_length = 0 then Inl IndeterminateLength else Inl NullDereference
           | Inr (Some off) \<Rightarrow>
               if chunk_length = 0 then Inr (combined, chunk_start + off + 2)
               else if chunk_start + off + 2 + chunk_length > length body then Inl ReadsPastData
               else compress_loop body (chunk_start + off + 2 + chunk_length + 2)
                      (combined @ take chunk_length (drop (chunk_start + off + 2) body))))"
  by pat_completeness auto
termination
  by (relation "measure (\<lambda>(body, chunk_start, combined). length body + 3 - chunk_start)") auto

declare compress_loop.simps [simp del]

text \<open>\<^verbatim>\<open>compress_chunks\<close>: the combined body and \<^verbatim>\<open>total_length\<close>. Where the first
  \<^verbatim>\<open>strstr\<close> answers \<^verbatim>\<open>NULL\<close>, the loop reads its first size through a pointer computed
  from \<^verbatim>\<open>NULL\<close>.\<close>

definition compress_chunks :: "string \<Rightarrow> fault + (string \<times> nat)" where
  "compress_chunks body =
     (case strtoul16 body of
        Inl f \<Rightarrow> Inl f
      | Inr combined_length \<Rightarrow>
          (case strstr body CRLF of
             Inl f \<Rightarrow> Inl f
           | Inr None \<Rightarrow> Inl NullDereference
           | Inr (Some off) \<Rightarrow>
               if off + 2 + combined_length > length body then Inl ReadsPastData
               else compress_loop body (off + 2 + combined_length + 2)
                      (take combined_length (drop (off + 2) body))))"

subsection \<open>The read callback (\<^verbatim>\<open>read_cb\<close>)\<close>

text \<open>How a call ends: it returns, it reaches a fault (what it does from there on is not
  described), or it never returns.\<close>

datatype 'a outcome = Returns 'a | Faults fault | Diverges

text \<open>What the \<^verbatim>\<open>switch\<close> on the encoding finds in the bytes after the headers: not enough
  yet, or a body together with the \<^verbatim>\<open>content_length\<close> to remove after the headers.\<close>

datatype framing = NeedMore | Frame string nat | UnknownEncoding | FrameFault fault | FrameDiverges

text \<open>
  The socket object is closed only by \<^verbatim>\<open>complete_all_requests\<close>, which also clears the
  pointer: a socket that is not \<^verbatim>\<open>NULL\<close> is not closed, and \<^verbatim>\<open>g_socket_is_closed\<close>
  dereferences its argument.
\<close>

definition read_content :: "soup_encoding \<Rightarrow> nat \<Rightarrow> bool \<Rightarrow> string \<Rightarrow> string \<Rightarrow> framing" where
  "read_content encoding content_length socket headers body =
     (case encoding of
        SOUP_ENCODING_EOF \<Rightarrow> if socket then NeedMore else FrameFault NullDereference
      | SOUP_ENCODING_CHUNKED \<Rightarrow>
          (case have_chunked_body headers body of
             None \<Rightarrow> FrameDiverges
           | Some (Inl f) \<Rightarrow> FrameFault f
           | Some (Inr False) \<Rightarrow> NeedMore
           | Some (Inr True) \<Rightarrow>
               (case compress_chunks body of
                  Inl f \<Rightarrow> FrameFault f
                | Inr (combined, total_length) \<Rightarrow> Frame combined total_length))
      | SOUP_ENCODING_CONTENT_LENGTH \<Rightarrow>
          if length body < content_length then NeedMore
          else Frame (take content_length body) content_length
      | _ \<Rightarrow> UnknownEncoding)"

definition clear_read_source :: "snapd_client \<Rightarrow> nat \<Rightarrow> snapd_client" where
  "clear_read_source c request =
     c\<lparr>heap := (heap c)(request := (heap c request)\<lparr>read_source := False\<rparr>)\<rparr>"

text \<open>
  One pass through the body of the \<^verbatim>\<open>while (TRUE)\<close> loop on the buffer \<open>buf\<close>: either the
  callback returns (with \<^verbatim>\<open>G_SOURCE_CONTINUE\<close> as \<open>True\<close>, \<^verbatim>\<open>G_SOURCE_REMOVE\<close> as \<open>False\<close>),
  or a response was handed to a request and that many bytes leave the front of the buffer.
\<close>

datatype step = Stop "(snapd_client \<times> bool) outcome" | Consumed nat snapd_client

definition read_step :: "collaborators \<Rightarrow> (nat \<Rightarrow> io_outcome) \<Rightarrow> string \<Rightarrow> snapd_client \<Rightarrow> step" where
  "read_step d ios buf c =
     (case g_strstr_len buf (CRLF @ CRLF) of
        None \<Rightarrow> Stop (Returns (c, True))
      | Some off \<Rightarrow>
          (let header_length = off + 4;
               headers = take header_length buf;
               body = drop header_length buf
           in case get_first_request c of
                None \<Rightarrow>
                  Stop (Returns (c\<lparr>warnings := warnings c @ [''Ignoring unexpected response'']\<rparr>, False))
              | Some request \<Rightarrow>
                  (case soup_headers d headers of
                     None \<Rightarrow>
                       Stop (Returns
                         (clear_read_source
                            (complete_all_requests c
                               (SNAPD_ERROR_READ_FAILED, ''Failed to parse headers from snapd''))
                            request, False))
                   | Some (encoding, content_length) \<Rightarrow>
                       (case read_content encoding content_length (snapd_socket c) headers body of
                          NeedMore \<Rightarrow> Stop (Returns (c, True))
                        | FrameFault f \<Rightarrow> Stop (Faults f)
                        | FrameDiverges \<Rightarrow> Stop Diverges
                        | UnknownEncoding \<Rightarrow>
                            Stop (Returns
                              (clear_read_source
                                 (complete_all_requests c
                                    (SNAPD_ERROR_READ_FAILED, ''Unable to determine header encoding''))
                                 request, False))
                        | Frame content consumed \<Rightarrow>
                            (let c1 = append_response_body c request content
                             in case parse_response d (ios (next_address c1)) headers c1 request of
                                  Inl f \<Rightarrow> Stop (Faults f)
                                | Inr c2 \<Rightarrow> Consumed (header_length + consumed) c2)))))"

lemma g_strstr_len_nonempty:
  "g_strstr_len buf needle = Some off \<Longrightarrow> needle \<noteq> [] \<Longrightarrow> buf \<noteq> []"
  by (cases buf) simp_all

lemma read_step_Consumed:
  assumes "read_step d ios buf c = Consumed n c'"
  shows "0 < n \<and> buf \<noteq> []"
proof -
  from assms obtain off where "g_strstr_len buf (CRLF @ CRLF) = Some off" "off + 4 \<le> n"
    by (auto simp: read_step_def Let_def
        split: option.splits prod.splits framing.splits sum.splits)
  then show ?thesis
    using g_strstr_len_nonempty [of buf "CRLF @ CRLF" off] by (simp add: CRLF_def)
qed

text \<open>The loop: the bytes consumed are removed from the front of the byte array
  (\<^verbatim>\<open>g_byte_array_remove_range\<close>) and \<^verbatim>\<open>n_read\<close> shrinks by as much.\<close>

function read_loop ::
  "collaborators \<Rightarrow> (nat \<Rightarrow> io_outcome) \<Rightarrow> string \<Rightarrow> snapd_client \<Rightarrow> (snapd_client \<times> bool) outcome" where
  "read_loop d ios buf c =
     (case read_step d ios buf c of
        Stop r \<Rightarrow> r
      | Consumed n c' \<Rightarrow> read_loop d ios (drop n buf) (c'\<lparr>buffer := drop n buf\<rparr>))"
  by pat_completeness auto
termination
  by (relation "measure (\<lambda>(d, ios, buf, c). length buf)") (auto dest: read_step_Consumed)

declare read_loop.simps [simp del]

text \<open>What \<^verbatim>\<open>g_socket_receive\<close> gives: bytes (none when the peer has closed the
  connection), \<^verbatim>\<open>G_IO_ERROR_WOULD_BLOCK\<close>, or another error with its message.\<close>

datatype receive = Received string | ReceiveWouldBlock | ReceiveFailed string

definition read_cb ::
  "collaborators \<Rightarrow> (nat \<Rightarrow> io_outcome) \<Rightarrow> snapd_client \<Rightarrow> nat \<Rightarrow> receive \<Rightarrow> (snapd_client \<times> bool) outcome" where
  "read_cb d ios c r recv =
     (case recv of
        Received bytes \<Rightarrow>
          if length bytes = 0 then
            Returns (clear_read_source
                       (complete_all_requests c (SNAPD_ERROR_READ_FAILED, ''snapd connection closed'')) r,
                     False)
          else read_loop d ios (buffer c @ bytes) (c\<lparr>buffer := buffer c @ bytes\<rparr>)
      | ReceiveWouldBlock \<Rightarrow> Returns (c, True)
      | ReceiveFailed msg \<Rightarrow>
          Returns (clear_read_source
                     (complete_all_requests c
                        (SNAPD_ERROR_READ_FAILED, ''Failed to read from snapd: '' @ msg)) r,
                   False))"

subsection \<open>Notions for the abort action\<close>


text \<open>The cancellable of the request is in the cancelled state.\<close>

definition cancelled :: "snapd_client \<Rightarrow> nat \<Rightarrow> bool" where
  "cancelled c request = g_cancellable_is_cancelled (cancellable (heap c request))"




subsection \<open>A small client for concrete checks\<close>

definition example_sync :: snapd_request where
  "example_sync = (new_request REQUEST_SYNC None None)\<lparr>ready_callback := True\<rparr>"

definition example_async :: snapd_request where
  "example_async =
     (new_request REQUEST_ASYNC None None)\<lparr>ready_callback := True, cancellable := Some False\<rparr>"

definition example_io :: io_outcome where
  "example_io = \<lparr>socket_created = True, socket_connected = True, socket_sent = True, io_message = []\<rparr>"

text \<open>A synchronous request at address 0 followed by an async request at address 1.\<close>

definition example_client :: snapd_client where
  "example_client =
     \<lparr>snapd_socket = True, requests = [0, 1], heap = (\<lambda>_. example_sync)(1 := example_async),
      next_address = 2, buffer = [], idle_sources = [], ready_calls = [], timeouts = [],
      progress_calls = [], warnings = [], sent_requests = [], written = []\<rparr>"

text \<open>A change snapshot with one task.\<close>

definition example_task :: snapd_task where
  "example_task =
     \<lparr>task_id = Some ''100'', task_kind = Some ''download-snap'', task_summary = Some ''Download snap'',
      task_status = Some ''Doing'', task_progress_label = Some ''hello'', task_progress_done = 1,
      task_progress_total = 2, task_spawn_time = Some 10, task_ready_time = None\<rparr>"

definition example_change :: snapd_change where
  "example_change =
     \<lparr>chg_id = Some ''42'', chg_kind = Some ''install-snap'', chg_summary = Some ''Install snap'',
      chg_status = Some ''Doing'', chg_tasks = Some [example_task], chg_ready = False,
      chg_spawn_time = Some 10, chg_ready_time = None\<rparr>"

text \<open>The poll response that decodes to \<open>example_change\<close> with the ready time \<open>t\<close> on the
  change and on its task.\<close>

definition example_result :: "int option \<Rightarrow> change_result" where
  "example_result t =
     \<lparr>res_id = Some ''42'', res_kind = Some ''install-snap'', res_summary = Some ''Install snap'',
      res_status = Some ''Doing'', res_tasks = [Some (example_task\<lparr>task_ready_time := t\<rparr>)],
      res_ready = False, res_spawn_time = Some 10, res_ready_time = t, res_data = None,
      res_has_err = False, res_err_string = ''Unknown error''\<rparr>"

text \<open>The async request at address 1 has a progress callback, the change id 42 and
  \<open>example_change\<close> as the last snapshot delivered; the request at address 0 is the poll.\<close>

definition polling_client :: snapd_client where
  "polling_client =
     example_client\<lparr>heap :=
       (\<lambda>_. new_request REQUEST_GET_CHANGE (Some ''42'') None)
       (1 := example_async\<lparr>change_id := Some ''42'', progress_callback := True,
                            change := Some example_change\<rparr>)\<rparr>"

text \<open>A poll response of a ready change that carries an in-band error.\<close>

definition example_ready_result :: change_result where
  "example_ready_result =
     (example_result None)\<lparr>res_ready := True, res_has_err := True, res_err_string := ''snap not found''\<rparr>"

text \<open>The headers of a response with a body of two bytes, and of a chunked response.\<close>

definition example_headers :: string where
  "example_headers = ''HTTP/1.1 200 OK'' @ CRLF @ ''Content-Length: 2'' @ CRLF @ CRLF"

definition chunked_headers :: string where
  "chunked_headers = ''HTTP/1.1 200 OK'' @ CRLF @ ''Transfer-Encoding: chunked'' @ CRLF @ CRLF"

text \<open>Decoders for concrete checks: every response has a body of two bytes framed with
  Content-Length, and every body decodes without error.\<close>

definition example_collaborators :: collaborators where
  "example_collaborators =
     \<lparr>soup_headers = (\<lambda>h. Some (SOUP_ENCODING_CONTENT_LENGTH, 2)),
      json_sync = (\<lambda>h b. None),
      json_async = (\<lambda>h b. Inr ''42''),
      json_change = (\<lambda>h b. Inr (example_result None))\<rparr>"

text \<open>The same with every response framed as chunked.\<close>

definition chunked_collaborators :: collaborators where
  "chunked_collaborators = example_collaborators\<lparr>soup_headers := (\<lambda>h. Some (SOUP_ENCODING_CHUNKED, 0))\<rparr>"

text \<open>The payload \<open>axfff\<close> in the chunks \<open>a\<close> and \<open>xfff\<close>, complete with its last chunk.\<close>

definition chunked_axfff :: string where
  "chunked_axfff = ''1'' @ CRLF @ ''a'' @ CRLF @ ''4'' @ CRLF @ ''xfff'' @ CRLF @ ''0'' @ CRLF @ CRLF"

text \<open>The chunks \<open>hello\<close> and \<open>world\<close> without the last chunk.\<close>

definition chunked_helloworld_unfinished :: string where
  "chunked_helloworld_unfinished = ''5'' @ CRLF @ ''hello'' @ CRLF @ ''5'' @ CRLF @ ''world'' @ CRLF"

text \<open>Only the async request at address 1 is in the list, and it has its change id.\<close>

definition awaiting_client :: snapd_client where
  "awaiting_client =
     example_client\<lparr>requests := [1],
       heap := (\<lambda>_. example_sync)(1 := example_async\<lparr>change_id := Some ''42''\<rparr>)\<rparr>"

text \<open>The state after the unexpected response, with a synchronous request at address 2
  appended to the list.\<close>

definition awaiting_client_later :: snapd_client where
  "awaiting_client_later =
     awaiting_client\<lparr>buffer := example_headers @ ''ok'',
       warnings := [''Ignoring unexpected response''], requests := [1, 2]\<rparr>"

subsection \<open>Responses and read events\<close>

text \<open>A request a response can be matched to, in the words of the specification: a
  synchronous request, or an async request whose change id is not resolved yet.\<close>

definition eligible :: "snapd_request \<Rightarrow> bool" where
  "eligible r = (\<not> SNAPD_IS_REQUEST_ASYNC r \<or> change_id r = None)"

text \<open>A sequence of read events, each with the request whose read source fired and the
  bytes received.\<close>

fun read_events ::
  "collaborators \<Rightarrow> (nat \<Rightarrow> io_outcome) \<Rightarrow> snapd_client \<Rightarrow> (nat \<times> string) list \<Rightarrow> snapd_client outcome" where
  "read_events d ios c [] = Returns c"
| "read_events d ios c ((r, bytes) # evs) =
     (case read_cb d ios c r (Received bytes) of
        Returns (c', keep) \<Rightarrow> read_events d ios c' evs
      | Faults f \<Rightarrow> Faults f
      | Diverges \<Rightarrow> Diverges)"

text \<open>
  A response framed with Content-Length, as header bytes and body: the header terminator
  occurs first at the end of the header bytes, and the headers parse to the encoding
  Content-Length with the length of the body.
\<close>

definition content_length_frame :: "collaborators \<Rightarrow> string \<times> string \<Rightarrow> bool" where
  "content_length_frame d f =
     (g_strstr_len (fst f) (CRLF @ CRLF) = Some (length (fst f) - 4) \<and>
      soup_headers d (fst f) = Some (SOUP_ENCODING_CONTENT_LENGTH, length (snd f)))"

definition frame_bytes :: "string \<times> string \<Rightarrow> string" where
  "frame_bytes f = fst f @ snd f"

text \<open>Handing one response to a synchronous request, and the responses of a list to the
  requests of a list, one each, in order.\<close>

definition deliver_frame :: "collaborators \<Rightarrow> snapd_client \<Rightarrow> nat \<Rightarrow> string \<times> string \<Rightarrow> snapd_client" where
  "deliver_frame d c request f =
     snapd_request_complete (append_response_body c request (snd f)) request
       (json_sync d (fst f) (response_body (heap c request) @ snd f))"

fun deliver_frames :: "collaborators \<Rightarrow> snapd_client \<Rightarrow> (nat \<times> string \<times> string) list \<Rightarrow> snapd_client" where
  "deliver_frames d c [] = c"
| "deliver_frames d c ((request, f) # rest) = deliver_frames d (deliver_frame d c request f) rest"

text \<open>The bytes left in the buffer hold no complete response of the list.\<close>

definition incomplete :: "string \<Rightarrow> (string \<times> string) list \<Rightarrow> bool" where
  "incomplete pending fs =
     (case fs of [] \<Rightarrow> pending = [] | f # _ \<Rightarrow> strict_prefix pending (frame_bytes f))"

text \<open>Two synchronous requests, at addresses 0 and 1, sent before any response; their two
  responses; and the bytes of the two responses as four read events, cut inside the
  headers, inside the first body and inside the second body.\<close>

definition sync_client :: snapd_client where
  "sync_client = example_client\<lparr>heap := (\<lambda>_. example_sync)\<rparr>"

definition example_responses :: "(string \<times> string) list" where
  "example_responses = [(example_headers, ''ok''), (example_headers, ''no'')]"

definition example_reads :: "(nat \<times> string) list" where
  "example_reads =
     [(0, ''HTTP/1.1 2''),
      (0, ''00 OK'' @ CRLF @ ''Content-Length: 2'' @ CRLF @ CRLF @ ''o''),
      (1, ''k'' @ example_headers @ ''n''),
      (1, ''o'')]"

text \<open>
  The algorithm as the specification words it: filter, normalise, enumerate, format.
  \<open>claimed_entry\<close> omits the suffix only from quality 100 upwards, as the specification
  says; \<open>amended_entry\<close> also omits it for a negative quality, as the guard
  \<^verbatim>\<open>quality >= 0 && quality < 100\<close> of \<^verbatim>\<open>add_quality_value\<close> does.
\<close>

definition spec_keep :: "string \<Rightarrow> bool" where
  "spec_keep tag = (CHR ''.'' \<notin> set tag \<and> CHR ''@'' \<notin> set tag \<and> tag \<noteq> ''C'')"

definition spec_normalise :: "string \<Rightarrow> string" where
  "spec_normalise tag = map (\<lambda>c. if c = CHR ''_'' then CHR ''-'' else c) (map g_ascii_tolower tag)"

definition spec_step :: "nat \<Rightarrow> int" where
  "spec_step n = (if n < 10 then 10 else if n < 20 then 5 else 1)"

definition spec_q_suffix :: "int \<Rightarrow> string" where
  "spec_q_suffix q =
     (if q mod 10 = 0 then '';q=0.'' @ printf_d (q div 10) else '';q=0.'' @ printf_02d q)"

definition claimed_entry :: "string \<Rightarrow> int \<Rightarrow> string" where
  "claimed_entry tag q = (if q \<ge> 100 then tag else tag @ spec_q_suffix q)"

definition amended_entry :: "string \<Rightarrow> int \<Rightarrow> string" where
  "amended_entry tag q = (if q \<ge> 100 \<or> q < 0 then tag else tag @ spec_q_suffix q)"

definition spec_accept_language :: "(string \<Rightarrow> int \<Rightarrow> string) \<Rightarrow> string list \<Rightarrow> string" where
  "spec_accept_language entry tags =
     (let ts = map spec_normalise (filter spec_keep tags)
      in if ts = [] then ''en''
         else g_strjoinv '', ''
                (map (\<lambda>(i, t). entry t (100 - int i * spec_step (length ts))) (enumerate 0 ts)))"

section \<open>Properties\<close>

subsection \<open>Accept-Language\<close>

lemma build_langs_eq: "build_langs tags = map spec_normalise (filter spec_keep tags)"
  by (induction tags)
     (simp_all add: posix_lang_to_rfc2616_def strchr_def spec_keep_def spec_normalise_def
                 g_strdelimit_def g_ascii_strdown_def)

lemma quality_at_int:
  "quality_at i d = (100 - int i * d + 2 ^ 31) mod 2 ^ 32 - 2 ^ 31"
proof -
  have "(100 :: 32 word) - word_of_nat i * word_of_int d = word_of_int (100 - int i * d)"
    by simp
  then show ?thesis
    unfolding quality_at_def by (simp only: int_word_sint) simp
qed

lemma c_div_nonneg: "0 \<le> a \<Longrightarrow> 0 < b \<Longrightarrow> c_div a b = a div b"
  by (simp add: c_div_def)

lemma c_mod_nonneg: "0 \<le> a \<Longrightarrow> 0 < b \<Longrightarrow> c_mod a b = a mod b"
  by (simp add: c_mod_def c_div_nonneg minus_mult_div_eq_mod)

lemma add_quality_value_in_range:
  "0 \<le> q \<Longrightarrow> q < 100 \<Longrightarrow> add_quality_value t q = amended_entry t q"
  by (simp add: add_quality_value_def amended_entry_def spec_q_suffix_def c_mod_nonneg c_div_nonneg)

lemma add_quality_value_out_of_range:
  "q < 0 \<or> 100 \<le> q \<Longrightarrow> add_quality_value t q = t"
  by (auto simp: add_quality_value_def)

text \<open>The unsigned 32-bit computation of the quality agrees with the integer one as far as
  \<^verbatim>\<open>add_quality_value\<close> can tell, for every index a \<^verbatim>\<open>guint\<close> can hold.\<close>

lemma entry_refines:
  assumes "i < n" "n < 2 ^ 32"
  shows "add_quality_value t (quality_at i (choose_delta n)) = amended_entry t (100 - int i * spec_step n)"
proof -
  let ?x = "100 - int i * spec_step n"
  have d: "choose_delta n = spec_step n" by (simp add: choose_delta_def spec_step_def)
  have lo: "100 - 2 ^ 32 < ?x" using assms by (auto simp: spec_step_def)
  have hi: "?x \<le> 100" by (auto simp: spec_step_def)
  show ?thesis
  proof (cases "0 \<le> ?x + 2 ^ 31")
    case True
    then have "(?x + 2 ^ 31) mod 2 ^ 32 = ?x + 2 ^ 31" using hi by simp
    then have q: "quality_at i (choose_delta n) = ?x" by (simp add: quality_at_int d)
    show ?thesis
    proof (cases "0 \<le> ?x \<and> ?x < 100")
      case True then show ?thesis by (simp add: q add_quality_value_in_range)
    next
      case False
      then show ?thesis unfolding q
        by (subst add_quality_value_out_of_range) (auto simp: amended_entry_def)
    qed
  next
    case False
    then have "0 \<le> ?x + 2 ^ 31 + 2 ^ 32" "?x + 2 ^ 31 + 2 ^ 32 < 2 ^ 32" using lo False by simp_all
    then have "(?x + 2 ^ 31 + 2 ^ 32) mod 2 ^ 32 = ?x + 2 ^ 31 + 2 ^ 32"
      by (rule mod_pos_pos_trivial)
    then have "(?x + 2 ^ 31) mod 2 ^ 32 = ?x + 2 ^ 31 + 2 ^ 32"
      by (simp only: mod_add_self2)
    then have q: "quality_at i (choose_delta n) = ?x + 2 ^ 32" by (simp add: quality_at_int d)
    have "100 \<le> ?x + 2 ^ 32" using lo by simp
    moreover have "?x < 0" using False by simp
    ultimately show ?thesis unfolding q
      by (subst add_quality_value_out_of_range) (auto simp: amended_entry_def)
  qed
qed

lemma add_qualities_refines:
  "i + length ts \<le> n \<Longrightarrow> n < 2 ^ 32 \<Longrightarrow>
   add_qualities i (choose_delta n) ts =
   map (\<lambda>(j, t). amended_entry t (100 - int j * spec_step n)) (enumerate i ts)"
  by (induction ts arbitrary: i) (simp_all add: entry_refines)

lemma add_qualities_length: "length (add_qualities i d ts) = length ts"
  by (induction ts arbitrary: i) simp_all

lemma add_qualities_nth:
  "j < length ts \<Longrightarrow> add_qualities i d ts ! j = add_quality_value (ts ! j) (quality_at (i + j) d)"
proof (induction ts arbitrary: i j)
  case Nil
  then show ?case by simp
next
  case (Cons t ts)
  then show ?case by (cases j) simp_all
qed

lemma build_langs_replicate_a: "build_langs (replicate n ''a'') = replicate n ''a''"
proof (induction n)
  case 0
  show ?case by simp
next
  case (Suc n)
  have "posix_lang_to_rfc2616 ''a'' = Some ''a''" by code_simp
  with Suc show ?case by simp
qed

text \<open>
  C8 (amended). For every list of language tags whose filtered list fits a \<^verbatim>\<open>guint\<close>
  length, the Accept-Language value is the one the specification describes, with the q
  suffix omitted when the quality is 100 or more and also when it is negative: tags with
  \<open>.\<close> or \<open>@\<close> and the bare tag C are dropped, the rest lower-cased with \<open>_\<close>
  replaced by \<open>-\<close>, qualities descend from 100 in the step chosen by the filtered
  length, and an empty list gives \<open>en\<close>.
\<close>

theorem get_accept_languages_refines:
  assumes "length (build_langs tags) < 2 ^ 32"
  shows "get_accept_languages tags = spec_accept_language amended_entry tags"
proof -
  let ?ts = "build_langs tags"
  have "add_qualities 0 (choose_delta (length ?ts)) ?ts =
        map (\<lambda>(j, t). amended_entry t (100 - int j * spec_step (length ?ts))) (enumerate 0 ?ts)"
    using assms by (intro add_qualities_refines) simp_all
  moreover have "(length (add_qualities 0 (choose_delta (length ?ts)) ?ts) = 0) = (?ts = [])"
    by (simp add: add_qualities_length)
  ultimately show ?thesis
    by (simp add: get_accept_languages_def accept_language_entries_def spec_accept_language_def
        Let_def build_langs_eq [symmetric] del: length_0_conv)
qed

theorem get_accept_languages_refines_witness:
  "length (build_langs [''en'', ''fr'', ''de'']) < 2 ^ 32 \<and>
   get_accept_languages [''en'', ''fr'', ''de''] = spec_accept_language amended_entry [''en'', ''fr'', ''de''] \<and>
   get_accept_languages [''en'', ''fr'', ''de''] = ''en, fr;q=0.9, de;q=0.8''"
proof -
  have "build_langs [''en'', ''fr'', ''de''] = [''en'', ''fr'', ''de'']" by code_simp
  then have h: "length (build_langs [''en'', ''fr'', ''de'']) < 2 ^ 32" by simp
  have v: "get_accept_languages [''en'', ''fr'', ''de''] = ''en, fr;q=0.9, de;q=0.8''" by code_simp
  show ?thesis using h v get_accept_languages_refines [OF h] by simp
qed

text \<open>
  C8 as stated fails for a list of 102 tags: entry 101 has quality \<open>-1\<close>, which is below
  100, and yet it carries no q suffix, where the specification's wording formats it.
\<close>

theorem accept_language_negative_quality_counterexample:
  "accept_language_entries (replicate 102 ''a'') ! 101 = ''a'' \<and>
   quality_at 101 (choose_delta 102) = - 1 \<and>
   claimed_entry ''a'' (- 1) \<noteq> ''a''"
proof -
  have "add_qualities 0 (choose_delta 102) (replicate 102 ''a'') ! 101 =
        add_quality_value ''a'' (quality_at (0 + 101) (choose_delta 102))"
    by (subst add_qualities_nth) simp_all
  moreover have q: "quality_at 101 (choose_delta 102) = - 1"
    by (simp add: quality_at_def choose_delta_def)
  ultimately have "accept_language_entries (replicate 102 ''a'') ! 101 = ''a''"
    by (simp add: accept_language_entries_def build_langs_replicate_a add_quality_value_def)
  moreover have "claimed_entry ''a'' (- 1) \<noteq> ''a''"
    by (simp add: claimed_entry_def spec_q_suffix_def)
  ultimately show ?thesis using q by simp
qed

subsection \<open>Completion and fatal errors\<close>





lemma complete_unlocked_class [simp]:
  "req_class (heap (snapd_request_complete_unlocked c r e) x) = req_class (heap c x)"
  by (simp add: snapd_request_complete_unlocked_def snapd_request_respond_def Let_def)

lemma schedule_poll_class [simp]:
  "req_class (heap (schedule_poll c r) x) = req_class (heap c x)"
  by (simp add: schedule_poll_def)

lemma complete_all_loop_class [simp]:
  "req_class (heap (complete_all_loop c link err) x) = req_class (heap c x)"
  by (induction c link err rule: complete_all_loop.induct) (simp_all)

lemma complete_all_loop_requests:
  "distinct (requests c) \<Longrightarrow>
   requests (complete_all_loop c link err) =
   filter (\<lambda>r. \<not> (r \<in> set link \<and> \<not> SNAPD_IS_REQUEST_ASYNC (heap c r))) (requests c)"
proof (induction c link err rule: complete_all_loop.induct)
  case (1 c err)
  then show ?case by simp
next
  case (2 c request link err)
  show ?case
  proof (cases "SNAPD_IS_REQUEST_ASYNC (heap c request)")
    case True
    have "requests (schedule_poll c request) = requests c" by (simp add: schedule_poll_def)
    with 2 True show ?thesis
      by (auto simp: SNAPD_IS_REQUEST_ASYNC_def intro!: filter_cong)
  next
    case False
    have r: "requests (snapd_request_complete_unlocked c request (Some err)) = remove1 request (requests c)"
      by (simp add: snapd_request_complete_unlocked_def snapd_request_respond_def Let_def)
    with 2 False show ?thesis
      by (auto simp: SNAPD_IS_REQUEST_ASYNC_def distinct_remove1_removeAll removeAll_filter_not_eq
          intro!: filter_cong)
  qed
qed


lemma heap_schedule_poll:
  "heap (schedule_poll c a) r = (if r = a then (heap c a)\<lparr>poll_source := True\<rparr> else heap c r)"
  by (simp add: schedule_poll_def)

lemma heap_complete_unlocked:
  "heap (snapd_request_complete_unlocked c a e) r =
     (if r = a then
        (if responded (heap c a) then (heap c a)\<lparr>read_source := False\<rparr>
         else (heap c a)\<lparr>read_source := False, responded := True, error := e\<rparr>)
      else heap c r)"
  by (simp add: snapd_request_complete_unlocked_def snapd_request_respond_def Let_def)

lemma complete_all_loop_other:
  "r \<notin> set link \<Longrightarrow> heap (complete_all_loop c link err) r = heap c r"
  by (induction c link err rule: complete_all_loop.induct)
     (simp_all add: heap_schedule_poll heap_complete_unlocked)

lemma complete_all_loop_async:
  "distinct link \<Longrightarrow> r \<in> set link \<Longrightarrow> SNAPD_IS_REQUEST_ASYNC (heap c r) \<Longrightarrow>
   heap (complete_all_loop c link err) r = (heap c r)\<lparr>poll_source := True\<rparr>"
proof (induction c link err rule: complete_all_loop.induct)
  case (1 c err)
  then show ?case by simp
next
  case (2 c request link err)
  show ?case
  proof (cases "r = request")
    case True
    then have "r \<notin> set link" using "2.prems" by simp
    then show ?thesis using True "2.prems"(3)
      by (simp add: complete_all_loop_other heap_schedule_poll)
  next
    case False
    then have in_link: "r \<in> set link" and d: "distinct link" using "2.prems" by simp_all
    show ?thesis
    proof (cases "SNAPD_IS_REQUEST_ASYNC (heap c request)")
      case True
      have "SNAPD_IS_REQUEST_ASYNC (heap (schedule_poll c request) r)"
        using False "2.prems"(3) by (simp add: heap_schedule_poll)
      from "2.IH"(1) [OF True d in_link this] show ?thesis
        using True False by (simp add: heap_schedule_poll)
    next
      case sync: False
      have "SNAPD_IS_REQUEST_ASYNC (heap (snapd_request_complete_unlocked c request (Some err)) r)"
        using False "2.prems"(3) by (simp add: heap_complete_unlocked)
      from "2.IH"(2) [OF sync d in_link this] show ?thesis
        using sync False by (simp add: heap_complete_unlocked)
    qed
  qed
qed

lemma complete_all_loop_sync:
  "distinct link \<Longrightarrow> r \<in> set link \<Longrightarrow> \<not> SNAPD_IS_REQUEST_ASYNC (heap c r) \<Longrightarrow>
   heap (complete_all_loop c link err) r =
     (if responded (heap c r) then (heap c r)\<lparr>read_source := False\<rparr>
      else (heap c r)\<lparr>read_source := False, responded := True, error := Some err\<rparr>)"
proof (induction c link err rule: complete_all_loop.induct)
  case (1 c err)
  then show ?case by simp
next
  case (2 c request link err)
  show ?case
  proof (cases "r = request")
    case True
    then have "r \<notin> set link" using "2.prems" by simp
    then show ?thesis using True "2.prems"(3)
      by (simp add: complete_all_loop_other heap_complete_unlocked)
  next
    case False
    then have in_link: "r \<in> set link" and d: "distinct link" using "2.prems" by simp_all
    show ?thesis
    proof (cases "SNAPD_IS_REQUEST_ASYNC (heap c request)")
      case True
      have "\<not> SNAPD_IS_REQUEST_ASYNC (heap (schedule_poll c request) r)"
        using False "2.prems"(3) by (simp add: heap_schedule_poll)
      from "2.IH"(1) [OF True d in_link this] show ?thesis
        using True False by (simp add: heap_schedule_poll)
    next
      case sync: False
      have "\<not> SNAPD_IS_REQUEST_ASYNC (heap (snapd_request_complete_unlocked c request (Some err)) r)"
        using False "2.prems"(3) by (simp add: heap_complete_unlocked)
      from "2.IH"(2) [OF sync d in_link this] show ?thesis
        using sync False by (simp add: heap_complete_unlocked)
    qed
  qed
qed

lemma complete_all_loop_idle:
  "distinct link \<Longrightarrow>
   idle_sources (complete_all_loop c link err) =
   idle_sources c @ filter (\<lambda>r. \<not> SNAPD_IS_REQUEST_ASYNC (heap c r) \<and> \<not> responded (heap c r)) link"
proof (induction c link err rule: complete_all_loop.induct)
  case (1 c err)
  then show ?case by simp
next
  case (2 c request link err)
  then show ?case
    by (auto simp: schedule_poll_def snapd_request_complete_unlocked_def snapd_request_respond_def
          SNAPD_IS_REQUEST_ASYNC_def Let_def intro!: filter_cong)
qed

lemma complete_all_loop_timeouts:
  "timeouts (complete_all_loop c link err) =
   timeouts c @ filter (\<lambda>r. SNAPD_IS_REQUEST_ASYNC (heap c r)) link"
proof (induction c link err rule: complete_all_loop.induct)
  case (1 c err)
  then show ?case by simp
next
  case (2 c request link err)
  then show ?case
    by (auto simp: schedule_poll_def snapd_request_complete_unlocked_def snapd_request_respond_def
          SNAPD_IS_REQUEST_ASYNC_def Let_def intro!: filter_cong)
qed

lemma complete_all_loop_socket:
  "snapd_socket (complete_all_loop c link err) = snapd_socket c"
  by (induction c link err rule: complete_all_loop.induct)
     (simp_all add: schedule_poll_def snapd_request_complete_unlocked_def snapd_request_respond_def Let_def)

lemma complete_all_loop_ready_calls:
  "ready_calls (complete_all_loop c link err) = ready_calls c"
  by (induction c link err rule: complete_all_loop.induct)
     (simp_all add: schedule_poll_def snapd_request_complete_unlocked_def snapd_request_respond_def Let_def)

text \<open>
  C4. \<^verbatim>\<open>complete_all_requests\<close>, which the read callback runs on a closed connection, a
  failed read, unparseable headers and an unknown encoding, closes the socket, completes
  every synchronous request of the list (with the given error when it had not responded
  yet, each getting its idle source) and removes it, and keeps every async request in
  the list, untouched but for a newly attached poll timer.
\<close>

theorem complete_all_requests_fails_sync_keeps_async:
  assumes "distinct (requests c)"
  shows "\<not> snapd_socket (complete_all_requests c err) \<and>
         requests (complete_all_requests c err) =
           filter (\<lambda>r. SNAPD_IS_REQUEST_ASYNC (heap c r)) (requests c) \<and>
         timeouts (complete_all_requests c err) =
           timeouts c @ filter (\<lambda>r. SNAPD_IS_REQUEST_ASYNC (heap c r)) (requests c) \<and>
         idle_sources (complete_all_requests c err) =
           idle_sources c @
           filter (\<lambda>r. \<not> SNAPD_IS_REQUEST_ASYNC (heap c r) \<and> \<not> responded (heap c r)) (requests c) \<and>
         (\<forall>r \<in> set (requests c).
            if SNAPD_IS_REQUEST_ASYNC (heap c r)
            then heap (complete_all_requests c err) r = (heap c r)\<lparr>poll_source := True\<rparr>
            else responded (heap (complete_all_requests c err) r) \<and>
                 (\<not> responded (heap c r) \<longrightarrow> error (heap (complete_all_requests c err) r) = Some err))"
  using assms
  by (auto simp: complete_all_requests_def Let_def complete_all_loop_socket complete_all_loop_requests
      complete_all_loop_timeouts complete_all_loop_idle complete_all_loop_async complete_all_loop_sync
      SNAPD_IS_REQUEST_ASYNC_def intro!: filter_cong)

theorem complete_all_requests_fails_sync_keeps_async_witness:
  "distinct (requests example_client) \<and>
   \<not> snapd_socket (complete_all_requests example_client (SNAPD_ERROR_READ_FAILED, ''snapd connection closed'')) \<and>
   requests (complete_all_requests example_client (SNAPD_ERROR_READ_FAILED, ''snapd connection closed'')) = [1] \<and>
   timeouts (complete_all_requests example_client (SNAPD_ERROR_READ_FAILED, ''snapd connection closed'')) = [1] \<and>
   idle_sources (complete_all_requests example_client (SNAPD_ERROR_READ_FAILED, ''snapd connection closed'')) = [0] \<and>
   error (heap (complete_all_requests example_client (SNAPD_ERROR_READ_FAILED, ''snapd connection closed'')) 0) =
     Some (SNAPD_ERROR_READ_FAILED, ''snapd connection closed'') \<and>
   \<not> responded (heap (complete_all_requests example_client (SNAPD_ERROR_READ_FAILED, ''snapd connection closed'')) 1)"
proof -
  have h: "distinct (requests example_client)" by (simp add: example_client_def)
  have f: "requests example_client = [0, 1]" "timeouts example_client = []"
    "idle_sources example_client = []"
    "\<not> SNAPD_IS_REQUEST_ASYNC (heap example_client 0)" "SNAPD_IS_REQUEST_ASYNC (heap example_client 1)"
    "\<not> responded (heap example_client 0)" "\<not> responded (heap example_client 1)"
    by (simp_all add: example_client_def example_sync_def example_async_def new_request_def
        SNAPD_IS_REQUEST_ASYNC_def)
  from complete_all_requests_fails_sync_keeps_async
         [OF h, of "(SNAPD_ERROR_READ_FAILED, ''snapd connection closed'')"]
  show ?thesis using h f by simp
qed

text \<open>The branches of the read callback that end in \<^verbatim>\<open>complete_all_requests\<close>.\<close>

lemma read_cb_connection_closed:
  "read_cb d ios c r (Received []) =
   Returns (clear_read_source
              (complete_all_requests c (SNAPD_ERROR_READ_FAILED, ''snapd connection closed'')) r, False)"
  by (simp add: read_cb_def)

lemma read_cb_read_failed:
  "read_cb d ios c r (ReceiveFailed msg) =
   Returns (clear_read_source
              (complete_all_requests c (SNAPD_ERROR_READ_FAILED, ''Failed to read from snapd: '' @ msg)) r,
            False)"
  by (simp add: read_cb_def)

lemma read_step_bad_headers:
  "g_strstr_len buf (CRLF @ CRLF) = Some off \<Longrightarrow> get_first_request c = Some request \<Longrightarrow>
   soup_headers d (take (off + 4) buf) = None \<Longrightarrow>
   read_step d ios buf c =
   Stop (Returns (clear_read_source
                    (complete_all_requests c
                       (SNAPD_ERROR_READ_FAILED, ''Failed to parse headers from snapd'')) request, False))"
  by (simp add: read_step_def)

lemma read_step_unknown_encoding:
  "g_strstr_len buf (CRLF @ CRLF) = Some off \<Longrightarrow> get_first_request c = Some request \<Longrightarrow>
   soup_headers d (take (off + 4) buf) = Some (encoding, n) \<Longrightarrow>
   encoding \<notin> {SOUP_ENCODING_EOF, SOUP_ENCODING_CHUNKED, SOUP_ENCODING_CONTENT_LENGTH} \<Longrightarrow>
   read_step d ios buf c =
   Stop (Returns (clear_read_source
                    (complete_all_requests c
                       (SNAPD_ERROR_READ_FAILED, ''Unable to determine header encoding'')) request, False))"
  by (cases encoding) (simp_all add: read_step_def read_content_def)

lemma clear_read_source_keeps:
  "requests (clear_read_source c r) = requests c"
  "snapd_socket (clear_read_source c r) = snapd_socket c"
  "idle_sources (clear_read_source c r) = idle_sources c"
  "timeouts (clear_read_source c r) = timeouts c"
  "responded (heap (clear_read_source c r) x) = responded (heap c x)"
  "error (heap (clear_read_source c r) x) = error (heap c x)"
  "poll_source (heap (clear_read_source c r) x) = poll_source (heap c x)"
  by (simp_all add: clear_read_source_def)

subsection \<open>Cancellation of an async request\<close>

lemma heap_respond:
  "heap (snapd_request_respond c a e) r =
     (if r = a \<and> \<not> responded (heap c a) then (heap c a)\<lparr>responded := True, error := e\<rparr> else heap c r)"
  by (simp add: snapd_request_respond_def)

lemma heap_complete:
  "heap (snapd_request_complete c a e) r =
     (if r = a then
        (if responded (heap c a) then (heap c a)\<lparr>read_source := False\<rparr>
         else (heap c a)\<lparr>read_source := False, responded := True, error := e\<rparr>)
      else heap c r)"
  by (simp add: snapd_request_complete_def heap_complete_unlocked)

lemma complete_fields:
  "requests (snapd_request_complete c a e) = remove1 a (requests c)"
  "timeouts (snapd_request_complete c a e) = timeouts c"
  "sent_requests (snapd_request_complete c a e) = sent_requests c"
  "next_address (snapd_request_complete c a e) = next_address c"
  "progress_calls (snapd_request_complete c a e) = progress_calls c"
  "ready_calls (snapd_request_complete c a e) = ready_calls c"
  by (simp_all add: snapd_request_complete_def snapd_request_complete_unlocked_def
      snapd_request_respond_def Let_def)














subsection \<open>Poll responses\<close>

lemma times_equal_refl [simp]: "times_equal t t"
  by (cases t) (simp_all add: times_equal_def)

text \<open>
  C3. Two snapshots that differ only in the ready time of the change (or of a task) are
  equal for \<^verbatim>\<open>changes_equal\<close> (and \<^verbatim>\<open>tasks_equal\<close>), which read the spawn time twice and
  the ready time never: a poll response that decodes to such a snapshot invokes no
  progress callback, although the snapshot differs from the last one delivered.
\<close>

theorem ready_time_not_compared:
  "example_change\<lparr>chg_ready_time := Some 20\<rparr> \<noteq> example_change \<and>
   changes_equal (Some example_change) (Some (example_change\<lparr>chg_ready_time := Some 20\<rparr>)) \<and>
   tasks_equal example_task (example_task\<lparr>task_ready_time := Some 20\<rparr>) \<and>
   build_change (example_result (Some 20)) [example_task\<lparr>task_ready_time := Some 20\<rparr>] \<noteq> example_change \<and>
   update_progress polling_client 1 (example_result (Some 20)) = Some polling_client \<and>
   (\<exists>c'. parse_change_response polling_client 0 (Some ''42'') (Inr (example_result (Some 20))) = Inr c' \<and>
         progress_calls c' = progress_calls polling_client)"
proof -
  have t: "tasks_equal example_task (example_task\<lparr>task_ready_time := Some 20\<rparr>)"
    by (simp add: tasks_equal_def example_task_def g_strcmp0_is_0_def)
  have c: "changes_equal (Some example_change) (Some (example_change\<lparr>chg_ready_time := Some 20\<rparr>))"
    by (simp add: changes_equal_def example_change_def g_strcmp0_is_0_def
        tasks_equal_def)
  have n: "example_change\<lparr>chg_ready_time := Some 20\<rparr> \<noteq> example_change"
    by (simp add: example_change_def)
  have b: "build_change (example_result (Some 20)) [example_task\<lparr>task_ready_time := Some 20\<rparr>] \<noteq> example_change"
    by (simp add: build_change_def example_result_def example_change_def)
  have u: "update_progress polling_client 1 (example_result (Some 20)) = Some polling_client"
    by (simp add: update_progress_def polling_client_def example_async_def new_request_def
        example_result_def build_change_def changes_equal_def example_change_def
        g_strcmp0_is_0_def tasks_equal_def example_task_def)
  have f: "find_change_request polling_client (Some ''42'') = Inr (Some 1)"
    by (simp add: find_change_request_def polling_client_def example_client_def example_async_def
        new_request_def SNAPD_IS_REQUEST_ASYNC_def)
  have p: "\<exists>c'. parse_change_response polling_client 0 (Some ''42'') (Inr (example_result (Some 20))) = Inr c' \<and>
         progress_calls c' = progress_calls polling_client"
    using f u
    by (simp add: parse_change_response_def g_strcmp0_is_0_def)
       (simp add: example_result_def snapd_request_complete_def snapd_request_complete_unlocked_def
          snapd_request_respond_def schedule_poll_def Let_def)
  show ?thesis using t c n b u p by simp
qed

lemma find_change_loop_Some:
  "find_change_loop h rs cid = Inr (Some p) \<Longrightarrow>
   p \<in> set rs \<and> SNAPD_IS_REQUEST_ASYNC (h p) \<and> change_id (h p) = cid \<and> cid \<noteq> None"
  by (induction h rs cid rule: find_change_loop.induct)
     (auto split: if_splits option.splits)

lemma find_change_request_Some:
  "find_change_request c cid = Inr (Some p) \<Longrightarrow>
   p \<in> set (requests c) \<and> SNAPD_IS_REQUEST_ASYNC (heap c p) \<and> change_id (heap c p) = cid \<and> cid \<noteq> None"
  unfolding find_change_request_def by (rule find_change_loop_Some)

text \<open>Completing the parent with an error and then the poll request without one.\<close>

lemma complete_both:
  fixes err :: "gerror option"
  assumes "parent \<noteq> request" "\<not> responded (heap c parent)" "\<not> responded (heap c request)"
  defines "c' \<equiv> snapd_request_complete (snapd_request_complete c parent err) request None"
  shows "heap c' parent = (heap c parent)\<lparr>read_source := False, responded := True, error := err\<rparr>"
    and "heap c' request = (heap c request)\<lparr>read_source := False, responded := True, error := None\<rparr>"
    and "requests c' = remove1 request (remove1 parent (requests c))"
    and "timeouts c' = timeouts c"
    and "sent_requests c' = sent_requests c"
    and "idle_sources c' = idle_sources c @ [parent, request]"
    and "ready_calls c' = ready_calls c"
    and "progress_calls c' = progress_calls c"
  using assms(1-3) unfolding c'_def
  by (simp_all add: heap_complete complete_fields)
     (simp_all add: snapd_request_complete_def snapd_request_complete_unlocked_def
        snapd_request_respond_def Let_def)

text \<open>
  C10. When the poll response decodes to a result whose \<^verbatim>\<open>id\<close> is not the change id the
  poll was issued for, the async request found for that change id is completed with the
  read-failed error "Unexpected change ID returned" and leaves the list, no poll timer is
  attached, and the poll request completes without an error.
\<close>

theorem unexpected_change_id_fails_parent:
  assumes "find_change_request c cid = Inr (Some parent)"
    and "\<not> SNAPD_IS_REQUEST_ASYNC (heap c request)"
    and "\<not> responded (heap c parent)" and "\<not> responded (heap c request)"
    and "res_id result \<noteq> cid"
  shows "\<exists>c'. parse_change_response c request cid (Inr result) = Inr c' \<and>
           responded (heap c' parent) \<and>
           error (heap c' parent) = Some (SNAPD_ERROR_READ_FAILED, ''Unexpected change ID returned'') \<and>
           responded (heap c' request) \<and> error (heap c' request) = None \<and>
           requests c' = remove1 request (remove1 parent (requests c)) \<and>
           timeouts c' = timeouts c \<and> poll_source (heap c' parent) = poll_source (heap c parent) \<and>
           sent_requests c' = sent_requests c \<and>
           idle_sources c' = idle_sources c @ [parent, request]"
proof -
  have ne: "parent \<noteq> request"
    using find_change_request_Some [OF assms(1)] assms(2) by auto
  note cb = complete_both [OF ne assms(3) assms(4),
      where err = "Some (SNAPD_ERROR_READ_FAILED, ''Unexpected change ID returned'')"]
  have "parse_change_response c request cid (Inr result) =
        Inr (snapd_request_complete
               (snapd_request_complete c parent
                  (Some (SNAPD_ERROR_READ_FAILED, ''Unexpected change ID returned''))) request None)"
    using assms(1) assms(5) by (auto simp: parse_change_response_def g_strcmp0_is_0_def)
  then show ?thesis using cb by simp
qed

lemma update_progress_Some:
  assumes "update_progress c parent result = Some c1"
  shows "requests c1 = requests c" and "timeouts c1 = timeouts c" and "idle_sources c1 = idle_sources c"
    and "sent_requests c1 = sent_requests c" and "ready_calls c1 = ready_calls c"
    and "responded (heap c1 x) = responded (heap c x)"
    and "cancellable (heap c1 x) = cancellable (heap c x)"
    and "async_data (heap c1 x) = async_data (heap c x)"
    and "poll_source (heap c1 x) = poll_source (heap c x)"
  using assms
  by (auto simp: update_progress_def Let_def split: if_splits option.splits)

text \<open>
  C7. When the poll response reports the change ready (its id being the one polled and its
  tasks decoding), the async request completes with the cancellation error if its
  cancellable is cancelled, otherwise with a \<^verbatim>\<open>SNAPD_ERROR_FAILED\<close> error holding the
  \<^verbatim>\<open>err\<close> string if the result has an \<^verbatim>\<open>err\<close> member, otherwise without error; the
  \<^verbatim>\<open>data\<close> member, if any, is kept; both requests leave the list and no poll timer is
  attached.
\<close>

theorem ready_change_completes_parent:
  assumes "find_change_request c cid = Inr (Some parent)"
    and "\<not> SNAPD_IS_REQUEST_ASYNC (heap c request)"
    and "\<not> responded (heap c parent)" and "\<not> responded (heap c request)"
    and "res_id result = cid" and "res_ready result"
    and "update_progress c parent result \<noteq> None"
  shows "\<exists>c'. parse_change_response c request cid (Inr result) = Inr c' \<and>
           responded (heap c' parent) \<and>
           error (heap c' parent) =
             (if cancelled c parent then Some cancelled_error
              else if res_has_err result then Some (SNAPD_ERROR_FAILED, res_err_string result)
              else None) \<and>
           async_data (heap c' parent) =
             (case res_data result of Some node \<Rightarrow> Some node | None \<Rightarrow> async_data (heap c parent)) \<and>
           requests c' = remove1 request (remove1 parent (requests c)) \<and>
           timeouts c' = timeouts c \<and> poll_source (heap c' parent) = poll_source (heap c parent) \<and>
           sent_requests c' = sent_requests c \<and>
           responded (heap c' request) \<and> error (heap c' request) = None \<and>
           idle_sources c' = idle_sources c @ [parent, request]"
proof -
  have ne: "parent \<noteq> request"
    using find_change_request_Some [OF assms(1)] assms(2) by auto
  from assms(7) obtain c1 where u: "update_progress c parent result = Some c1" by auto
  note k = update_progress_Some [OF u]
  define c2 where "c2 = (case res_data result of
      Some node \<Rightarrow> c1\<lparr>heap := (heap c1)(parent := (heap c1 parent)\<lparr>async_data := Some node\<rparr>)\<rparr>
    | None \<Rightarrow> c1)"
  define err where "err = (case g_cancellable_set_error_if_cancelled (cancellable (heap c2 parent)) of
      Some e \<Rightarrow> Some e
    | None \<Rightarrow> if res_has_err result then Some (SNAPD_ERROR_FAILED, res_err_string result) else None)"
  have c2: "requests c2 = requests c" "timeouts c2 = timeouts c" "idle_sources c2 = idle_sources c"
    "sent_requests c2 = sent_requests c"
    "responded (heap c2 parent) = responded (heap c parent)"
    "responded (heap c2 request) = responded (heap c request)"
    "cancellable (heap c2 parent) = cancellable (heap c parent)"
    "poll_source (heap c2 parent) = poll_source (heap c parent)"
    "async_data (heap c2 parent) =
       (case res_data result of Some node \<Rightarrow> Some node | None \<Rightarrow> async_data (heap c parent))"
    using k ne by (simp_all add: c2_def split: option.splits)
  have e: "err = (if cancelled c parent then Some cancelled_error
              else if res_has_err result then Some (SNAPD_ERROR_FAILED, res_err_string result)
              else None)"
    by (simp add: err_def c2(7) cancelled_def g_cancellable_set_error_if_cancelled_def)
  have nr: "\<not> responded (heap c2 parent)" "\<not> responded (heap c2 request)"
    using assms(3,4) c2(5,6) by simp_all
  note cb = complete_both [OF ne nr, where err = err]
  have "parse_change_response c request cid (Inr result) =
        Inr (snapd_request_complete (snapd_request_complete c2 parent err) request None)"
    using assms(1,5,6) u
    by (simp add: parse_change_response_def g_strcmp0_is_0_def complete_ready_def c2_def err_def Let_def)
  then show ?thesis using cb c2 e by simp
qed

lemma polling_client_facts:
  "find_change_request polling_client (Some ''42'') = Inr (Some 1)"
  "\<not> SNAPD_IS_REQUEST_ASYNC (heap polling_client 0)"
  "\<not> responded (heap polling_client 1)" "\<not> responded (heap polling_client 0)"
  "requests polling_client = [0, 1]" "timeouts polling_client = []"
  "idle_sources polling_client = []" "sent_requests polling_client = []"
  "\<not> cancelled polling_client 1" "async_data (heap polling_client 1) = None"
  by (simp_all add: find_change_request_def polling_client_def example_client_def example_async_def
      new_request_def SNAPD_IS_REQUEST_ASYNC_def cancelled_def g_cancellable_is_cancelled_def)

theorem unexpected_change_id_fails_parent_witness:
  "find_change_request polling_client (Some ''42'') = Inr (Some 1) \<and>
   \<not> SNAPD_IS_REQUEST_ASYNC (heap polling_client 0) \<and>
   \<not> responded (heap polling_client 1) \<and> \<not> responded (heap polling_client 0) \<and>
   res_id ((example_result None)\<lparr>res_id := Some ''43''\<rparr>) \<noteq> Some ''42'' \<and>
   (\<exists>c'. parse_change_response polling_client 0 (Some ''42'')
           (Inr ((example_result None)\<lparr>res_id := Some ''43''\<rparr>)) = Inr c' \<and>
         error (heap c' 1) = Some (SNAPD_ERROR_READ_FAILED, ''Unexpected change ID returned'') \<and>
         error (heap c' 0) = None \<and> requests c' = [] \<and> timeouts c' = [] \<and>
         idle_sources c' = [1, 0])"
proof -
  have h: "res_id ((example_result None)\<lparr>res_id := Some ''43''\<rparr>) \<noteq> Some ''42''"
    by (simp add: example_result_def)
  from unexpected_change_id_fails_parent
         [OF polling_client_facts(1) polling_client_facts(2) polling_client_facts(3)
             polling_client_facts(4) h]
  show ?thesis using polling_client_facts h by auto
qed

theorem ready_change_completes_parent_witness:
  "find_change_request polling_client (Some ''42'') = Inr (Some 1) \<and>
   \<not> SNAPD_IS_REQUEST_ASYNC (heap polling_client 0) \<and>
   \<not> responded (heap polling_client 1) \<and> \<not> responded (heap polling_client 0) \<and>
   res_id example_ready_result = Some ''42'' \<and> res_ready example_ready_result \<and>
   update_progress polling_client 1 example_ready_result \<noteq> None \<and>
   (\<exists>c'. parse_change_response polling_client 0 (Some ''42'') (Inr example_ready_result) = Inr c' \<and>
         error (heap c' 1) = Some (SNAPD_ERROR_FAILED, ''snap not found'') \<and>
         error (heap c' 0) = None \<and> requests c' = [] \<and> timeouts c' = [] \<and>
         idle_sources c' = [1, 0])"
proof -
  have h: "res_id example_ready_result = Some ''42''" "res_ready example_ready_result"
    "res_has_err example_ready_result" "res_err_string example_ready_result = ''snap not found''"
    by (simp_all add: example_ready_result_def example_result_def)
  have u: "update_progress polling_client 1 example_ready_result \<noteq> None"
    by (simp add: update_progress_def example_ready_result_def example_result_def Let_def)
  from ready_change_completes_parent
         [OF polling_client_facts(1) polling_client_facts(2) polling_client_facts(3)
             polling_client_facts(4) h(1) h(2) u]
  show ?thesis using polling_client_facts h u by auto
qed

subsection \<open>The frame decoder at concrete inputs\<close>

lemmas c_string_eval =
  strtoul16_def isspace_def is_xdigit_def xdigit_value_def ULONG_MAX_def CRLF_def NUL_def Let_def

lemma have_chunked_body_axfff: "have_chunked_body chunked_headers chunked_axfff = Some (Inr False)"
  unfolding chunked_axfff_def
  apply (subst have_chunked_body.simps, simp add: c_string_eval)
  apply (subst have_chunked_body.simps, simp add: c_string_eval)
  apply (subst have_chunked_body.simps, simp add: c_string_eval)
  done

lemma compress_chunks_axfff: "compress_chunks chunked_axfff = Inr (''axfff'', 18)"
  unfolding chunked_axfff_def compress_chunks_def
  apply (simp add: c_string_eval)
  apply (subst compress_loop.simps, simp add: c_string_eval)
  apply (subst compress_loop.simps, simp add: c_string_eval)
  done

lemma have_chunked_body_unfinished:
  "have_chunked_body chunked_headers chunked_helloworld_unfinished = Some (Inr True)"
  unfolding chunked_helloworld_unfinished_def
  apply (subst have_chunked_body.simps, simp add: c_string_eval)
  apply (subst have_chunked_body.simps, simp add: c_string_eval)
  apply (subst have_chunked_body.simps, simp add: c_string_eval)
  done

lemma compress_chunks_unfinished:
  "compress_chunks chunked_helloworld_unfinished = Inl ReadsPastData"
  unfolding chunked_helloworld_unfinished_def compress_chunks_def
  apply (simp add: c_string_eval)
  apply (subst compress_loop.simps, simp add: c_string_eval)
  apply (subst compress_loop.simps, simp add: c_string_eval)
  done

text \<open>
  A size written with a minus sign: the sum of header length and size is \<open>2 ^ 64 - 2\<close>, the
  pointer moves back onto the end of the headers, and the next size read does not fit.
  A last chunk followed by a NUL byte instead of its line end: \<^verbatim>\<open>have_chunked_body\<close>
  accepts the body and \<^verbatim>\<open>compress_chunks\<close> returns a length computed from \<^verbatim>\<open>NULL\<close>.
  Two complete responses one after the other: the walk through the first one still
  answers that the body is incomplete.
\<close>

lemma have_chunked_body_negative_size:
  "have_chunked_body chunked_headers (''-6'' @ CRLF @ ''0'' @ CRLF @ CRLF) = Some (Inr False)"
  unfolding chunked_headers_def
  apply (subst have_chunked_body.simps, simp add: c_string_eval)
  apply (subst have_chunked_body.simps, simp add: c_string_eval)
  done

lemma compress_chunks_size_zero_then_NUL:
  "have_chunked_body chunked_headers (''1'' @ CRLF @ ''a'' @ CRLF @ ''0'' @ [NUL]) = Some (Inr True) \<and>
   compress_chunks (''1'' @ CRLF @ ''a'' @ CRLF @ ''0'' @ [NUL]) = Inl IndeterminateLength"
proof
  show "have_chunked_body chunked_headers (''1'' @ CRLF @ ''a'' @ CRLF @ ''0'' @ [NUL]) = Some (Inr True)"
    apply (subst have_chunked_body.simps, simp add: c_string_eval)
    apply (subst have_chunked_body.simps, simp add: c_string_eval)
    done
  show "compress_chunks (''1'' @ CRLF @ ''a'' @ CRLF @ ''0'' @ [NUL]) = Inl IndeterminateLength"
    unfolding compress_chunks_def
    apply (simp add: c_string_eval)
    apply (subst compress_loop.simps, simp add: c_string_eval)
    done
qed

lemma have_chunked_body_two_responses:
  "have_chunked_body chunked_headers (chunked_axfff @ chunked_headers @ chunked_axfff) = Some (Inr False)"
  unfolding chunked_axfff_def chunked_headers_def
  apply (subst have_chunked_body.simps, simp add: c_string_eval)
  apply (subst have_chunked_body.simps, simp add: c_string_eval)
  apply (subst have_chunked_body.simps, simp add: c_string_eval)
  done

lemma header_end_chunked: "g_strstr_len (chunked_headers @ x) (CRLF @ CRLF) = Some 43"
  by (simp add: chunked_headers_def CRLF_def NUL_def)

lemma example_client_first: "get_first_request (example_client\<lparr>buffer := b\<rparr>) = Some 0"
  by (simp add: get_first_request_def example_client_def example_sync_def new_request_def
      SNAPD_IS_REQUEST_ASYNC_def)

text \<open>
  C2. The payload \<open>axfff\<close> sent in the two chunks \<open>a\<close> and \<open>xfff\<close>, followed by the last
  chunk and received whole, is never decoded: \<^verbatim>\<open>have_chunked_body\<close> advances past a chunk
  without the two bytes that end it, reads the next size from inside the second chunk and
  answers that the body is incomplete, so the read callback waits for more bytes, although
  \<^verbatim>\<open>compress_chunks\<close> would decode these bytes to \<open>axfff\<close>. For the chunks \<open>hello\<close> and
  \<open>world\<close> without the last chunk it answers that the body is complete, and
  \<^verbatim>\<open>compress_chunks\<close> then reads beyond the bytes received.
\<close>

theorem chunked_body_never_decoded:
  "have_chunked_body chunked_headers chunked_axfff = Some (Inr False) \<and>
   compress_chunks chunked_axfff = Inr (''axfff'', 18) \<and>
   read_cb chunked_collaborators ios example_client 0 (Received (chunked_headers @ chunked_axfff)) =
     Returns (example_client\<lparr>buffer := chunked_headers @ chunked_axfff\<rparr>, True) \<and>
   have_chunked_body chunked_headers chunked_helloworld_unfinished = Some (Inr True) \<and>
   read_cb chunked_collaborators ios example_client 0
     (Received (chunked_headers @ chunked_helloworld_unfinished)) = Faults ReadsPastData"
proof -
  have len: "length chunked_headers = 47" by (simp add: chunked_headers_def CRLF_def)
  have ne: "chunked_headers \<noteq> []" by (simp add: chunked_headers_def)
  have b: "buffer example_client = []" "snapd_socket example_client"
    by (simp_all add: example_client_def)
  have s1: "read_step chunked_collaborators ios (chunked_headers @ chunked_axfff)
              (example_client\<lparr>buffer := chunked_headers @ chunked_axfff\<rparr>) =
            Stop (Returns (example_client\<lparr>buffer := chunked_headers @ chunked_axfff\<rparr>, True))"
    by (simp add: read_step_def header_end_chunked example_client_first len b
        chunked_collaborators_def read_content_def have_chunked_body_axfff)
  have s2: "read_step chunked_collaborators ios (chunked_headers @ chunked_helloworld_unfinished)
              (example_client\<lparr>buffer := chunked_headers @ chunked_helloworld_unfinished\<rparr>) =
            Stop (Faults ReadsPastData)"
    by (simp add: read_step_def header_end_chunked example_client_first len b
        chunked_collaborators_def read_content_def have_chunked_body_unfinished
        compress_chunks_unfinished)
  show ?thesis
    using have_chunked_body_axfff compress_chunks_axfff have_chunked_body_unfinished s1 s2
    by (simp add: read_cb_def b ne read_loop.simps [of _ _ "chunked_headers @ x" for x])
qed

lemma header_end_example: "g_strstr_len (example_headers @ x) (CRLF @ CRLF) = Some 34"
  by (simp add: example_headers_def CRLF_def NUL_def)

text \<open>
  C9. A complete response that arrives while no request is eligible is not dropped: the
  read callback logs the warning and returns \<^verbatim>\<open>G_SOURCE_REMOVE\<close> with the bytes still at
  the front of the buffer. When a synchronous request is sent afterwards, the next read
  hands it this stale response.
\<close>

theorem unexpected_response_stays_in_buffer:
  "get_first_request awaiting_client = None \<and>
   read_cb example_collaborators ios awaiting_client 1 (Received (example_headers @ ''ok'')) =
     Returns (awaiting_client\<lparr>buffer := example_headers @ ''ok'',
                warnings := [''Ignoring unexpected response'']\<rparr>, False) \<and>
   (\<exists>c'. read_cb example_collaborators ios awaiting_client_later 2 (Received ''H'') = Returns (c', True) \<and>
         response_body (heap c' 2) = ''ok'' \<and> responded (heap c' 2) \<and>
         requests c' = [1] \<and> buffer c' = ''H'')"
proof -
  have len: "length example_headers = 38" by (simp add: example_headers_def CRLF_def)
  have ne: "example_headers \<noteq> []" by (simp add: example_headers_def)
  have g: "get_first_request (awaiting_client\<lparr>buffer := b\<rparr>) = None" for b
    by (simp add: get_first_request_def awaiting_client_def example_client_def example_async_def
        new_request_def SNAPD_IS_REQUEST_ASYNC_def)
  have g0: "get_first_request awaiting_client = None"
    by (simp add: get_first_request_def awaiting_client_def example_client_def example_async_def
        new_request_def SNAPD_IS_REQUEST_ASYNC_def)
  have b: "buffer awaiting_client = []" "warnings awaiting_client = []"
    by (simp_all add: awaiting_client_def example_client_def)
  have s1: "read_step example_collaborators ios (example_headers @ ''ok'')
              (awaiting_client\<lparr>buffer := example_headers @ ''ok''\<rparr>) =
            Stop (Returns (awaiting_client\<lparr>buffer := example_headers @ ''ok'',
                             warnings := [''Ignoring unexpected response'']\<rparr>, False))"
    by (simp add: read_step_def header_end_example g b)
  have first: "read_cb example_collaborators ios awaiting_client 1 (Received (example_headers @ ''ok'')) =
     Returns (awaiting_client\<lparr>buffer := example_headers @ ''ok'',
                warnings := [''Ignoring unexpected response'']\<rparr>, False)"
    using s1 by (simp add: read_cb_def b ne read_loop.simps [of _ _ "example_headers @ x" for x])
  let ?c = "awaiting_client_later\<lparr>buffer := example_headers @ ''okH''\<rparr>"
  have later: "get_first_request ?c = Some 2" "snapd_socket awaiting_client_later"
    "heap awaiting_client_later 2 = example_sync"
    "requests awaiting_client_later = [1, 2]" "buffer awaiting_client_later = example_headers @ ''ok''"
    by (simp_all add: get_first_request_def awaiting_client_later_def awaiting_client_def
        example_client_def example_async_def example_sync_def new_request_def SNAPD_IS_REQUEST_ASYNC_def)
  define c2 where "c2 = snapd_request_complete (append_response_body ?c 2 ''ok'') 2 None"
  have s2: "read_step example_collaborators ios (example_headers @ ''okH'') ?c = Consumed 40 c2"
    by (simp add: read_step_def header_end_example later len example_collaborators_def
        read_content_def parse_response_def append_response_body_def Let_def c2_def
        example_sync_def new_request_def)
  have c2: "response_body (heap c2 2) = ''ok''" "responded (heap c2 2)" "requests c2 = [1]"
    by (simp_all add: c2_def heap_complete complete_fields append_response_body_def later
        example_sync_def new_request_def)
  have s3: "read_step example_collaborators ios ''H'' (c2\<lparr>buffer := ''H''\<rparr>) =
            Stop (Returns (c2\<lparr>buffer := ''H''\<rparr>, True))"
    by (simp add: read_step_def CRLF_def)
  have "read_loop example_collaborators ios (example_headers @ ''okH'') ?c =
        Returns (c2\<lparr>buffer := ''H''\<rparr>, True)"
    apply (subst read_loop.simps, simp add: s2 len)
    apply (subst read_loop.simps, simp add: s3)
    done
  then have second: "read_cb example_collaborators ios awaiting_client_later 2 (Received ''H'') =
        Returns (c2\<lparr>buffer := ''H''\<rparr>, True)"
    by (simp add: read_cb_def later)
  show ?thesis using g0 first second c2 by simp
qed

subsection \<open>Matching responses to requests\<close>

lemma g_strstr_len_bound:
  "g_strstr_len hay n = Some k \<Longrightarrow> n \<noteq> [] \<Longrightarrow> k + length n \<le> length hay"
proof (induction hay arbitrary: k)
  case Nil
  then show ?case by simp
next
  case (Cons c cs)
  then show ?case by (auto split: if_splits)
qed

lemma g_strstr_len_append:
  "g_strstr_len hay n = Some k \<Longrightarrow> g_strstr_len (hay @ x) n = Some k"
proof (induction hay arbitrary: k)
  case Nil
  then show ?case by (cases x) (auto split: if_splits)
next
  case (Cons c cs)
  have "\<not> Suc (length cs) < length n \<Longrightarrow> take (length n) (c # cs @ x) = take (length n) (c # cs)"
    using take_append [of "length n" "c # cs" x] by simp
  with Cons show ?case by (auto split: if_splits)
qed

lemma g_strstr_len_strict_prefix:
  assumes "g_strstr_len h n = Some (length h - length n)" "n \<noteq> []" "strict_prefix p h"
  shows "g_strstr_len p n = None"
proof (rule ccontr)
  assume "g_strstr_len p n \<noteq> None"
  then obtain k where k: "g_strstr_len p n = Some k" by auto
  from assms(3) obtain x where x: "h = p @ x" "0 < length x"
    by (auto simp: strict_prefix_def prefix_def)
  from g_strstr_len_append [OF k, of x] assms(1) x have "k = length h - length n" by simp
  moreover have "length h = length p + length x" using x(1) by simp
  with g_strstr_len_bound [OF k assms(2)] x(2) have "k + length n < length h" by linarith
  ultimately show False by simp
qed


lemma get_first_loop_find:
  "get_first_loop h rs = List.find (\<lambda>r. eligible (h r)) rs"
  by (induction rs) (auto simp: eligible_def)

lemma get_first_request_find:
  "get_first_request c = List.find (\<lambda>r. eligible (heap c r)) (requests c)"
  by (simp add: get_first_request_def get_first_loop_find)

lemma get_first_request_sync:
  "requests c = r # rq \<Longrightarrow> req_class (heap c r) = REQUEST_SYNC \<Longrightarrow> get_first_request c = Some r"
  by (simp add: get_first_request_def SNAPD_IS_REQUEST_ASYNC_def)

lemma deliver_frame_requests: "requests (deliver_frame d c r f) = remove1 r (requests c)"
  by (simp add: deliver_frame_def complete_fields append_response_body_def)

lemma deliver_frame_heap_other: "x \<noteq> r \<Longrightarrow> heap (deliver_frame d c r f) x = heap c x"
  by (simp add: deliver_frame_def heap_complete append_response_body_def)

lemma deliver_frame_class: "req_class (heap (deliver_frame d c r f) x) = req_class (heap c x)"
  by (simp add: deliver_frame_def heap_complete append_response_body_def)

lemma deliver_frame_body:
  "response_body (heap (deliver_frame d c r f) r) = response_body (heap c r) @ snd f"
  by (simp add: deliver_frame_def heap_complete append_response_body_def)

lemma deliver_frame_responded: "responded (heap (deliver_frame d c r f) r)"
  by (simp add: deliver_frame_def heap_complete append_response_body_def)

lemma deliver_frame_buffer:
  "deliver_frame d (c\<lparr>buffer := x\<rparr>) r f = (deliver_frame d c r f)\<lparr>buffer := x\<rparr>"
  by (simp add: deliver_frame_def snapd_request_complete_def snapd_request_complete_unlocked_def
      snapd_request_respond_def append_response_body_def Let_def)

lemma deliver_frames_buffer:
  "deliver_frames d (c\<lparr>buffer := x\<rparr>) z = (deliver_frames d c z)\<lparr>buffer := x\<rparr>"
  by (induction z arbitrary: c) (auto simp: deliver_frame_buffer)

lemma deliver_frames_append:
  "deliver_frames d c (z1 @ z2) = deliver_frames d (deliver_frames d c z1) z2"
  by (induction z1 arbitrary: c) auto

lemma deliver_frames_class:
  "req_class (heap (deliver_frames d c z) x) = req_class (heap c x)"
  by (induction z arbitrary: c) (auto simp: deliver_frame_class)

lemma deliver_frames_heap_other:
  "x \<notin> fst ` set z \<Longrightarrow> heap (deliver_frames d c z) x = heap c x"
  by (induction z arbitrary: c) (auto simp: deliver_frame_heap_other)

lemma content_length_frame_header:
  assumes "content_length_frame d f"
  shows "4 \<le> length (fst f)"
    and "g_strstr_len (fst f @ x) (CRLF @ CRLF) = Some (length (fst f) - 4)"
    and "frame_bytes f \<noteq> []"
proof -
  have g: "g_strstr_len (fst f) (CRLF @ CRLF) = Some (length (fst f) - 4)"
    using assms by (simp add: content_length_frame_def)
  from g_strstr_len_bound [OF g] show 4: "4 \<le> length (fst f)" by (simp add: CRLF_def)
  from g_strstr_len_append [OF g] show "g_strstr_len (fst f @ x) (CRLF @ CRLF) = Some (length (fst f) - 4)" .
  from 4 show "frame_bytes f \<noteq> []" by (auto simp: frame_bytes_def)
qed

lemma read_step_complete_frame:
  assumes "requests c = r # rq" "req_class (heap c r) = REQUEST_SYNC" "content_length_frame d f"
  shows "read_step d ios (frame_bytes f @ rest) c = Consumed (length (frame_bytes f)) (deliver_frame d c r f)"
proof -
  note h = content_length_frame_header [OF assms(3)]
  have s: "soup_headers d (fst f) = Some (SOUP_ENCODING_CONTENT_LENGTH, length (snd f))"
    using assms(3) by (simp add: content_length_frame_def)
  have g: "g_strstr_len (fst f @ snd f @ rest) (CRLF @ CRLF) = Some (length (fst f) - 4)"
    using h(2) [of "snd f @ rest"] by simp
  have l: "length (fst f) - 4 + 4 = length (fst f)" using h(1) by simp
  have cls: "req_class (heap (append_response_body c r (snd f)) r) = REQUEST_SYNC"
    using assms(2) by (simp add: append_response_body_def)
  have body: "response_body (heap (append_response_body c r (snd f)) r) = response_body (heap c r) @ snd f"
    by (simp add: append_response_body_def)
  show ?thesis
    using assms(2)
    by (simp add: frame_bytes_def read_step_def g l get_first_request_sync [OF assms(1) assms(2)] Let_def s
        read_content_def parse_response_def cls body deliver_frame_def)
qed

lemma read_step_incomplete_frame:
  assumes "strict_prefix p (frame_bytes f)" "content_length_frame d f"
    and "requests c = r # rq" "req_class (heap c r) = REQUEST_SYNC"
  shows "read_step d ios p c = Stop (Returns (c, True))"
proof (cases "strict_prefix p (fst f)")
  case True
  have g: "g_strstr_len (fst f) (CRLF @ CRLF) = Some (length (fst f) - length (CRLF @ CRLF))"
    using assms(2) by (simp add: content_length_frame_def CRLF_def)
  have "g_strstr_len p (CRLF @ CRLF) = None"
    by (rule g_strstr_len_strict_prefix [OF g _ True]) (simp add: CRLF_def)
  then show ?thesis by (simp add: read_step_def)
next
  case False
  from assms(1) have "prefix p (fst f @ snd f)" "p \<noteq> fst f @ snd f"
    by (simp_all add: strict_prefix_def frame_bytes_def)
  note pp = this
  have "\<exists>b'. p = fst f @ b' \<and> prefix b' (snd f) \<and> b' \<noteq> snd f"
  proof (cases "prefix p (fst f)")
    case True
    with False have "p = fst f" by (simp add: strict_prefix_def)
    then show ?thesis using pp(2) by (intro exI [of _ "[]"]) auto
  next
    case no: False
    with pp(1) obtain us where "p = fst f @ us" "prefix us (snd f)" by (auto simp: prefix_append)
    then show ?thesis using pp(2) by auto
  qed
  then obtain b' where b': "p = fst f @ b'" "prefix b' (snd f)" "b' \<noteq> snd f" by blast
  from b'(2) obtain z where z: "snd f = b' @ z" by (auto simp: prefix_def)
  with b'(3) have "z \<noteq> []" by auto
  then have len: "length b' < length (snd f)" using z by simp
  note h = content_length_frame_header [OF assms(2)]
  have s: "soup_headers d (fst f) = Some (SOUP_ENCODING_CONTENT_LENGTH, length (snd f))"
    using assms(2) by (simp add: content_length_frame_def)
  have l: "length (fst f) - 4 + 4 = length (fst f)" using h(1) by simp
  show ?thesis
    using len
    by (simp add: read_step_def b'(1) h(2) l get_first_request_sync [OF assms(3) assms(4)] Let_def s
        read_content_def)
qed


lemma read_step_empty: "read_step d ios [] c = Stop (Returns (c, True))"
  by (simp add: read_step_def CRLF_def)

lemma read_loop_frames:
  assumes "\<forall>f\<in>set fs. content_length_frame d f"
    and "requests c = rq" and "distinct rq"
    and "\<forall>r\<in>set rq. req_class (heap c r) = REQUEST_SYNC"
    and "length fs \<le> length rq"
    and "prefix buf (concat (map frame_bytes fs))" and "buffer c = buf"
  shows "\<exists>k pending. k \<le> length fs \<and> buf = concat (map frame_bytes (take k fs)) @ pending \<and>
           incomplete pending (drop k fs) \<and>
           read_loop d ios buf c =
             Returns ((deliver_frames d c (zip (take k rq) (take k fs)))\<lparr>buffer := pending\<rparr>, True)"
  using assms
proof (induction fs arbitrary: c rq buf)
  case Nil
  then have "buf = []" by simp
  moreover have "read_loop d ios [] c = Returns (c, True)"
    by (subst read_loop.simps) (simp add: read_step_empty)
  moreover have "c\<lparr>buffer := []\<rparr> = c" using Nil.prems(7) \<open>buf = []\<close> by simp
  ultimately show ?case by (intro exI [of _ 0] exI [of _ "[]"]) (simp add: incomplete_def)
next
  case (Cons f fs)
  from Cons.prems(5) obtain r rq' where rq: "rq = r # rq'" by (cases rq) auto
  have wf: "content_length_frame d f" using Cons.prems(1) by simp
  have cls: "req_class (heap c r) = REQUEST_SYNC" using Cons.prems(4) rq by simp
  have req: "requests c = r # rq'" using Cons.prems(2) rq by simp
  show ?case
  proof (cases "strict_prefix buf (frame_bytes f)")
    case True
    have "read_step d ios buf c = Stop (Returns (c, True))"
      by (rule read_step_incomplete_frame [OF True wf req cls])
    then have "read_loop d ios buf c = Returns (c, True)"
      by (subst read_loop.simps) simp
    moreover have "c\<lparr>buffer := buf\<rparr> = c" using Cons.prems(7) by simp
    ultimately show ?thesis using True
      by (intro exI [of _ 0] exI [of _ buf]) (simp add: incomplete_def)
  next
    case False
    from Cons.prems(6) have "prefix buf (frame_bytes f @ concat (map frame_bytes fs))" by simp
    then have "\<exists>rest. buf = frame_bytes f @ rest \<and> prefix rest (concat (map frame_bytes fs))"
    proof (cases "prefix buf (frame_bytes f)")
      case True
      with False have "buf = frame_bytes f" by (simp add: strict_prefix_def)
      then show ?thesis by (intro exI [of _ "[]"]) simp
    next
      case no: False
      with \<open>prefix buf (frame_bytes f @ concat (map frame_bytes fs))\<close> show ?thesis
        by (auto simp: prefix_append)
    qed
    then obtain rest where rest: "buf = frame_bytes f @ rest" "prefix rest (concat (map frame_bytes fs))"
      by blast
    define c2 where "c2 = (deliver_frame d c r f)\<lparr>buffer := rest\<rparr>"
    have step: "read_step d ios (frame_bytes f @ rest) c =
                Consumed (length (frame_bytes f)) (deliver_frame d c r f)"
      by (rule read_step_complete_frame [OF req cls wf])
    have loop: "read_loop d ios buf c = read_loop d ios rest c2"
      unfolding rest(1) by (subst read_loop.simps) (simp add: step c2_def)
    have p2: "requests c2 = rq'" using req by (simp add: c2_def deliver_frame_requests)
    have p3: "distinct rq'" using Cons.prems(3) rq by simp
    have p4: "\<forall>x\<in>set rq'. req_class (heap c2 x) = REQUEST_SYNC"
      using Cons.prems(4) rq by (simp add: c2_def deliver_frame_class)
    have p5: "length fs \<le> length rq'" using Cons.prems(5) rq by simp
    have p1: "\<forall>f\<in>set fs. content_length_frame d f" using Cons.prems(1) by simp
    have p7: "buffer c2 = rest" by (simp add: c2_def)
    from Cons.IH [OF p1 p2 p3 p4 p5 rest(2) p7]
    obtain k pending where k: "k \<le> length fs" "rest = concat (map frame_bytes (take k fs)) @ pending"
      "incomplete pending (drop k fs)"
      "read_loop d ios rest c2 =
         Returns ((deliver_frames d c2 (zip (take k rq') (take k fs)))\<lparr>buffer := pending\<rparr>, True)"
      by blast
    have "(deliver_frames d c2 (zip (take k rq') (take k fs)))\<lparr>buffer := pending\<rparr> =
          (deliver_frames d c (zip (take (Suc k) rq) (take (Suc k) (f # fs))))\<lparr>buffer := pending\<rparr>"
      by (simp add: c2_def rq deliver_frames_buffer)
    with k loop rest(1) show ?thesis
      by (intro exI [of _ "Suc k"] exI [of _ pending]) simp
  qed
qed


lemma deliver_frames_requests:
  "requests c = rq \<Longrightarrow> distinct rq \<Longrightarrow>
   requests (deliver_frames d c (take k (zip rq fs))) = drop (min k (length fs)) rq"
proof (induction rq arbitrary: c fs k)
  case Nil
  then show ?case by simp
next
  case (Cons r rq)
  show ?case
  proof (cases fs)
    case Nil
    then show ?thesis using Cons.prems by simp
  next
    case (Cons f fs')
    show ?thesis
    proof (cases k)
      case 0
      then show ?thesis using Cons.prems by simp
    next
      case (Suc k')
      have "requests (deliver_frame d c r f) = rq"
        using Cons.prems by (simp add: deliver_frame_requests)
      from Cons.IH [OF this, of k' fs'] Cons.prems(2) show ?thesis
        by (simp add: Suc \<open>fs = f # fs'\<close>)
    qed
  qed
qed

lemma deliver_frames_bodies:
  "distinct rq \<Longrightarrow> i < length rq \<Longrightarrow> i < length fs \<Longrightarrow>
   response_body (heap (deliver_frames d c (zip rq fs)) (rq ! i)) =
     response_body (heap c (rq ! i)) @ snd (fs ! i) \<and>
   responded (heap (deliver_frames d c (zip rq fs)) (rq ! i))"
proof (induction rq arbitrary: c fs i)
  case Nil
  then show ?case by simp
next
  case (Cons r rq)
  from Cons.prems(3) obtain f fs' where fs: "fs = f # fs'" by (cases fs) auto
  show ?case
  proof (cases i)
    case 0
    have "r \<notin> fst ` set (zip rq fs')" using Cons.prems(1) by (auto dest: set_zip_leftD)
    then have "heap (deliver_frames d (deliver_frame d c r f) (zip rq fs')) r = heap (deliver_frame d c r f) r"
      by (rule deliver_frames_heap_other)
    then show ?thesis by (simp add: 0 fs deliver_frame_body deliver_frame_responded)
  next
    case (Suc j)
    have d: "distinct rq" and j: "j < length rq" "j < length fs'" and ne: "rq ! j \<noteq> r"
      using Cons.prems Suc fs by auto
    from Cons.IH [OF d j, of "deliver_frame d c r f"] ne show ?thesis
      by (simp add: Suc fs deliver_frame_heap_other)
  qed
qed

lemma incomplete_all:
  assumes "incomplete pending fs" "pending = concat (map frame_bytes fs)"
  shows "fs = [] \<and> pending = []"
proof (cases fs)
  case Nil
  then show ?thesis using assms by (simp add: incomplete_def)
next
  case (Cons f fs')
  have no: "\<not> strict_prefix (a @ b) a" for a b :: string
    by (auto simp: strict_prefix_def prefix_def)
  from Cons have "strict_prefix (frame_bytes f @ concat (map frame_bytes fs')) (frame_bytes f)"
    using assms by (simp add: incomplete_def)
  with no show ?thesis by blast
qed

lemma read_events_frames:
  assumes "\<forall>f\<in>set fs. content_length_frame d f"
    and "requests c = rq" and "distinct rq"
    and "\<forall>r\<in>set rq. req_class (heap c r) = REQUEST_SYNC"
    and "length fs \<le> length rq"
    and "buffer c = pending" and "incomplete pending fs"
    and "pending @ concat (map snd evs) = concat (map frame_bytes fs)"
    and "\<forall>e\<in>set evs. snd e \<noteq> []"
  shows "read_events d ios c evs = Returns ((deliver_frames d c (zip rq fs))\<lparr>buffer := []\<rparr>)"
  using assms
proof (induction evs arbitrary: c rq fs pending)
  case Nil
  from incomplete_all [OF Nil.prems(7)] Nil.prems(8) have "fs = []" "pending = []" by simp_all
  then show ?case using Nil.prems(6) by simp
next
  case (Cons e evs)
  obtain r0 bytes where e: "e = (r0, bytes)" by (cases e)
  have ne: "bytes \<noteq> []" using Cons.prems(9) e by simp
  let ?buf = "pending @ bytes"
  let ?c0 = "c\<lparr>buffer := ?buf\<rparr>"
  have pre: "prefix ?buf (concat (map frame_bytes fs))"
    using Cons.prems(8) e by (simp add: prefix_def) (metis append.assoc)
  have q2: "requests ?c0 = rq" using Cons.prems(2) by simp
  have q4: "\<forall>r\<in>set rq. req_class (heap ?c0 r) = REQUEST_SYNC" using Cons.prems(4) by simp
  have q7: "buffer ?c0 = ?buf" by simp
  from read_loop_frames [OF Cons.prems(1) q2 Cons.prems(3) q4 Cons.prems(5) pre q7, of ios]
  obtain k pending1 where k: "k \<le> length fs"
    "?buf = concat (map frame_bytes (take k fs)) @ pending1"
    "incomplete pending1 (drop k fs)"
    "read_loop d ios ?buf ?c0 =
       Returns ((deliver_frames d ?c0 (zip (take k rq) (take k fs)))\<lparr>buffer := pending1\<rparr>, True)"
    by blast
  define z1 where "z1 = zip (take k rq) (take k fs)"
  define c1 where "c1 = (deliver_frames d c z1)\<lparr>buffer := pending1\<rparr>"
  have c1: "(deliver_frames d ?c0 z1)\<lparr>buffer := pending1\<rparr> = c1"
    by (simp add: c1_def deliver_frames_buffer)
  have cb: "read_cb d ios c r0 (Received bytes) = Returns (c1, True)"
    using ne k(4) Cons.prems(6) c1 by (simp add: read_cb_def z1_def)
  have z1t: "z1 = take k (zip rq fs)" by (simp add: z1_def take_zip)
  have r2: "requests c1 = drop k rq"
    using deliver_frames_requests [OF Cons.prems(2) Cons.prems(3), of d k fs] k(1)
    by (simp add: c1_def z1t min_def)
  have r3: "distinct (drop k rq)" using Cons.prems(3) by simp
  have r4: "\<forall>r\<in>set (drop k rq). req_class (heap c1 r) = REQUEST_SYNC"
    using Cons.prems(4) by (auto simp: c1_def deliver_frames_class dest: in_set_dropD)
  have r5: "length (drop k fs) \<le> length (drop k rq)" using Cons.prems(5) by simp
  have r1: "\<forall>f\<in>set (drop k fs). content_length_frame d f"
    using Cons.prems(1) by (auto dest: in_set_dropD)
  have r6: "buffer c1 = pending1" by (simp add: c1_def)
  have "concat (map frame_bytes (take k fs)) @ pending1 @ concat (map snd evs) =
        concat (map frame_bytes (take k fs)) @ concat (map frame_bytes (drop k fs))"
  proof -
    have "concat (map frame_bytes (take k fs)) @ pending1 @ concat (map snd evs) =
          (pending @ bytes) @ concat (map snd evs)" using k(2) by simp
    also have "\<dots> = concat (map frame_bytes fs)" using Cons.prems(8) e by simp
    also have "\<dots> = concat (map frame_bytes (take k fs @ drop k fs))" by simp
    also have "\<dots> = concat (map frame_bytes (take k fs)) @ concat (map frame_bytes (drop k fs))"
      by (simp only: map_append concat_append)
    finally show ?thesis .
  qed
  then have r8: "pending1 @ concat (map snd evs) = concat (map frame_bytes (drop k fs))" by simp
  have r9: "\<forall>e\<in>set evs. snd e \<noteq> []" using Cons.prems(9) by simp
  from Cons.IH [OF r1 r2 r3 r4 r5 r6 k(3) r8 r9]
  have "read_events d ios c1 evs =
        Returns ((deliver_frames d c1 (zip (drop k rq) (drop k fs)))\<lparr>buffer := []\<rparr>)" .
  moreover have "(deliver_frames d c1 (zip (drop k rq) (drop k fs)))\<lparr>buffer := []\<rparr> =
                 (deliver_frames d c (zip rq fs))\<lparr>buffer := []\<rparr>"
  proof -
    have "zip rq fs = z1 @ zip (drop k rq) (drop k fs)"
      unfolding z1t by (simp add: drop_zip [symmetric])
    then show ?thesis by (simp add: c1_def deliver_frames_append deliver_frames_buffer)
  qed
  ultimately show ?case using cb by (simp add: e)
qed


lemma deliver_frames_error:
  "distinct rq \<Longrightarrow> i < length rq \<Longrightarrow> i < length fs \<Longrightarrow> \<not> responded (heap c (rq ! i)) \<Longrightarrow>
   error (heap (deliver_frames d c (zip rq fs)) (rq ! i)) =
     json_sync d (fst (fs ! i)) (response_body (heap c (rq ! i)) @ snd (fs ! i))"
proof (induction rq arbitrary: c fs i)
  case Nil
  then show ?case by simp
next
  case (Cons r rq)
  from Cons.prems(3) obtain f fs' where fs: "fs = f # fs'" by (cases fs) auto
  show ?case
  proof (cases i)
    case 0
    have "r \<notin> fst ` set (zip rq fs')" using Cons.prems(1) by (auto dest: set_zip_leftD)
    then have "heap (deliver_frames d (deliver_frame d c r f) (zip rq fs')) r = heap (deliver_frame d c r f) r"
      by (rule deliver_frames_heap_other)
    then show ?thesis using Cons.prems(4)
      by (simp add: 0 fs deliver_frame_def heap_complete append_response_body_def)
  next
    case (Suc j)
    have d: "distinct rq" and j: "j < length rq" "j < length fs'" and ne: "rq ! j \<noteq> r"
      using Cons.prems Suc fs by auto
    have nr: "\<not> responded (heap (deliver_frame d c r f) (rq ! j))"
      using Cons.prems(4) ne by (simp add: Suc deliver_frame_heap_other)
    from Cons.IH [OF d j nr] ne show ?thesis
      by (simp add: Suc fs deliver_frame_heap_other)
  qed
qed

lemma send_request_requests:
  "socket_sent io \<Longrightarrow> snapd_socket c \<or> socket_created io \<and> socket_connected io \<Longrightarrow>
   requests (send_request io c r) = requests c @ [next_address c]"
  by (auto simp: send_request_def Let_def)

lemma read_step_first_request:
  assumes "read_step d ios buf c = Consumed n c'"
  shows "\<exists>request headers content.
           get_first_request c = Some request \<and>
           parse_response d (ios (next_address c)) headers (append_response_body c request content) request =
             Inr c'"
proof -
  have n: "next_address (append_response_body c request content) = next_address c" for request content
    by (simp add: append_response_body_def)
  from assms show ?thesis
    by (auto simp: read_step_def Let_def n
        split: option.splits prod.splits framing.splits sum.splits)
qed

text \<open>
  Responses framed with Content-Length. Every response handed over by the read callback is
  handed to the first request of the list, in the order the requests were sent, that is
  synchronous or is an async request without a change id. When the list holds only
  synchronous requests not yet answered, the buffer is empty, and the bytes of as many
  Content-Length responses arrive in read events cut anywhere, then after the last event
  every request is completed and removed from the list, the i-th request holding the body
  of the i-th response and the result its decoder gives for the i-th response.
\<close>

theorem responses_matched_in_arrival_order:
  "(read_step d ios buf c0 = Consumed n c1 \<longrightarrow>
      (\<exists>request headers content.
         List.find (\<lambda>r. eligible (heap c0 r)) (requests c0) = Some request \<and>
         parse_response d (ios (next_address c0)) headers (append_response_body c0 request content) request =
           Inr c1)) \<and>
   ((\<forall>f\<in>set fs. content_length_frame d f) \<and> distinct (requests c) \<and>
    (\<forall>r\<in>set (requests c). req_class (heap c r) = REQUEST_SYNC \<and> \<not> responded (heap c r)) \<and>
    length fs = length (requests c) \<and> buffer c = [] \<and>
    concat (map snd evs) = concat (map frame_bytes fs) \<and> (\<forall>e\<in>set evs. snd e \<noteq> []) \<longrightarrow>
    (\<exists>c'. read_events d ios c evs = Returns c' \<and> requests c' = [] \<and> buffer c' = [] \<and>
       (\<forall>i<length fs.
          response_body (heap c' (requests c ! i)) =
            response_body (heap c (requests c ! i)) @ snd (fs ! i) \<and>
          responded (heap c' (requests c ! i)) \<and>
          error (heap c' (requests c ! i)) =
            json_sync d (fst (fs ! i)) (response_body (heap c (requests c ! i)) @ snd (fs ! i)))))"
proof (intro conjI impI)
  assume "read_step d ios buf c0 = Consumed n c1"
  from read_step_first_request [OF this]
  show "\<exists>request headers content.
         List.find (\<lambda>r. eligible (heap c0 r)) (requests c0) = Some request \<and>
         parse_response d (ios (next_address c0)) headers (append_response_body c0 request content) request =
           Inr c1"
    by (simp add: get_first_request_find)
next
  assume a: "(\<forall>f\<in>set fs. content_length_frame d f) \<and> distinct (requests c) \<and>
    (\<forall>r\<in>set (requests c). req_class (heap c r) = REQUEST_SYNC \<and> \<not> responded (heap c r)) \<and>
    length fs = length (requests c) \<and> buffer c = [] \<and>
    concat (map snd evs) = concat (map frame_bytes fs) \<and> (\<forall>e\<in>set evs. snd e \<noteq> [])"
  define rq where "rq = requests c"
  have h1: "\<forall>f\<in>set fs. content_length_frame d f" using a by blast
  have h2: "requests c = rq" by (simp add: rq_def)
  have h3: "distinct rq" using a by (simp add: rq_def)
  have h4: "\<forall>r\<in>set rq. req_class (heap c r) = REQUEST_SYNC" using a by (simp add: rq_def)
  have h4': "\<forall>r\<in>set rq. \<not> responded (heap c r)" using a by (simp add: rq_def)
  have len: "length fs = length rq" using a by (simp add: rq_def)
  have h5: "length fs \<le> length rq" using len by simp
  have h6: "buffer c = []" using a by blast
  have h8: "[] @ concat (map snd evs) = concat (map frame_bytes fs)" using a by simp
  have h9: "\<forall>e\<in>set evs. snd e \<noteq> []" using a by blast
  have h7: "incomplete [] fs"
  proof (cases fs)
    case Nil
    then show ?thesis by (simp add: incomplete_def)
  next
    case (Cons f fs')
    then have "content_length_frame d f" using h1 by simp
    from content_length_frame_header(1) [OF this] have "frame_bytes f \<noteq> []"
      by (auto simp: frame_bytes_def)
    then show ?thesis using Cons by (simp add: incomplete_def strict_prefix_def)
  qed
  let ?c = "(deliver_frames d c (zip rq fs))\<lparr>buffer := []\<rparr>"
  have run: "read_events d ios c evs = Returns ?c"
    by (rule read_events_frames [OF h1 h2 h3 h4 h5 h6 h7 h8 h9])
  have "requests (deliver_frames d c (take (length rq) (zip rq fs))) = drop (min (length rq) (length fs)) rq"
    by (rule deliver_frames_requests [OF h2 h3])
  then have emp: "requests ?c = []" using len by simp
  have each: "response_body (heap ?c (rq ! i)) = response_body (heap c (rq ! i)) @ snd (fs ! i) \<and>
          responded (heap ?c (rq ! i)) \<and>
          error (heap ?c (rq ! i)) =
            json_sync d (fst (fs ! i)) (response_body (heap c (rq ! i)) @ snd (fs ! i))"
    if i: "i < length fs" for i
  proof -
    have i': "i < length rq" using i len by simp
    have nr: "\<not> responded (heap c (rq ! i))" using h4' i' by simp
    show ?thesis
      using deliver_frames_bodies [OF h3 i' i, of d c] deliver_frames_error [OF h3 i' i nr, of d]
      by simp
  qed
  show "\<exists>c'. read_events d ios c evs = Returns c' \<and> requests c' = [] \<and> buffer c' = [] \<and>
       (\<forall>i<length fs.
          response_body (heap c' (requests c ! i)) =
            response_body (heap c (requests c ! i)) @ snd (fs ! i) \<and>
          responded (heap c' (requests c ! i)) \<and>
          error (heap c' (requests c ! i)) =
            json_sync d (fst (fs ! i)) (response_body (heap c (requests c ! i)) @ snd (fs ! i)))"
    unfolding h2 using run emp each by (intro exI [of _ ?c]) simp
qed

theorem responses_matched_in_arrival_order_witness:
  "read_step example_collaborators (\<lambda>_. example_io) (example_headers @ ''ok'') sync_client =
     Consumed 40 (deliver_frame example_collaborators sync_client 0 (example_headers, ''ok'')) \<and>
   List.find (\<lambda>r. eligible (heap sync_client r)) (requests sync_client) = Some 0 \<and>
   list_all (content_length_frame example_collaborators) example_responses \<and>
   requests sync_client = [0, 1] \<and>
   req_class (heap sync_client 0) = REQUEST_SYNC \<and> \<not> responded (heap sync_client 0) \<and>
   req_class (heap sync_client 1) = REQUEST_SYNC \<and> \<not> responded (heap sync_client 1) \<and>
   length example_responses = 2 \<and> buffer sync_client = [] \<and>
   concat (map snd example_reads) = concat (map frame_bytes example_responses) \<and>
   list_all (\<lambda>e. snd e \<noteq> []) example_reads \<and>
   (\<exists>c'. read_events example_collaborators (\<lambda>_. example_io) sync_client example_reads = Returns c' \<and>
         requests c' = [] \<and> buffer c' = [] \<and>
         response_body (heap c' 0) = ''ok'' \<and> response_body (heap c' 1) = ''no'' \<and>
         responded (heap c' 0) \<and> responded (heap c' 1))"
proof -
  have len: "length example_headers = 38" by (simp add: example_headers_def CRLF_def)
  have f: "content_length_frame example_collaborators (example_headers, b)" if "length b = 2" for b
    using header_end_example [of "[]"] that
    by (simp add: content_length_frame_def len example_collaborators_def)
  have fs: "\<forall>f\<in>set example_responses. content_length_frame example_collaborators f"
    by (simp add: example_responses_def f)
  have c: "requests sync_client = [0, 1]" "buffer sync_client = []"
    "heap sync_client r = example_sync" for r
    by (simp_all add: sync_client_def example_client_def)
  have s: "req_class example_sync = REQUEST_SYNC" "\<not> responded example_sync"
    "response_body example_sync = []"
    by (simp_all add: example_sync_def new_request_def)
  have step: "read_step example_collaborators (\<lambda>_. example_io) (example_headers @ ''ok'') sync_client =
     Consumed 40 (deliver_frame example_collaborators sync_client 0 (example_headers, ''ok''))"
    using read_step_complete_frame
            [where c = sync_client and r = 0 and rq = "[1]" and d = example_collaborators
               and f = "(example_headers, ''ok'')" and rest = "[]" and ios = "\<lambda>_. example_io"]
    by (simp add: c s f frame_bytes_def len)
  have bytes: "concat (map snd example_reads) = concat (map frame_bytes example_responses)"
    by (simp add: example_reads_def example_responses_def frame_bytes_def example_headers_def)
  have ne: "\<forall>e\<in>set example_reads. snd e \<noteq> []"
    by (simp add: example_reads_def)
  have hyp: "(\<forall>f\<in>set example_responses. content_length_frame example_collaborators f) \<and>
    distinct (requests sync_client) \<and>
    (\<forall>r\<in>set (requests sync_client).
       req_class (heap sync_client r) = REQUEST_SYNC \<and> \<not> responded (heap sync_client r)) \<and>
    length example_responses = length (requests sync_client) \<and> buffer sync_client = [] \<and>
    concat (map snd example_reads) = concat (map frame_bytes example_responses) \<and>
    (\<forall>e\<in>set example_reads. snd e \<noteq> [])"
    using fs bytes ne by (simp add: c s example_responses_def)
  note t = responses_matched_in_arrival_order
             [where d = example_collaborators and ios = "\<lambda>_. example_io"
                and buf = "example_headers @ ''ok''" and ?c0.0 = sync_client and n = 40
                and ?c1.0 = "deliver_frame example_collaborators sync_client 0 (example_headers, ''ok'')"
                and fs = example_responses and c = sync_client and evs = example_reads]
  from t step have first: "List.find (\<lambda>r. eligible (heap sync_client r)) (requests sync_client) = Some 0"
    by (auto simp: c s eligible_def SNAPD_IS_REQUEST_ASYNC_def)
  from t hyp obtain c' where c':
    "read_events example_collaborators (\<lambda>_. example_io) sync_client example_reads = Returns c'"
    "requests c' = []" "buffer c' = []"
    "\<forall>i<length example_responses.
          response_body (heap c' (requests sync_client ! i)) =
            response_body (heap sync_client (requests sync_client ! i)) @ snd (example_responses ! i) \<and>
          responded (heap c' (requests sync_client ! i))"
    by blast
  from c'(4) [rule_format, of 0] c'(4) [rule_format, of 1]
  have "response_body (heap c' 0) = ''ok''" "response_body (heap c' 1) = ''no''"
    "responded (heap c' 0)" "responded (heap c' 1)"
    by (simp_all add: c s example_responses_def)
  moreover have "list_all (content_length_frame example_collaborators) example_responses"
    "list_all (\<lambda>e. snd e \<noteq> []) example_reads" "length example_responses = 2"
    using fs ne by (simp_all add: list_all_iff example_responses_def)
  ultimately show ?thesis using c'(1,2,3) step first bytes by (auto simp: c s)
qed

text \<open>
  C1. Two synchronous requests are in the list, not yet answered, and their two responses
  arrive, each framed as chunked, complete and in a read event of its own. After both
  events neither request is answered: both are still in the list, without a response body,
  and both responses lie in the buffer. \<^verbatim>\<open>have_chunked_body\<close> advances past a chunk without
  the two bytes that end it and answers that the body is incomplete, so \<^verbatim>\<open>read_cb\<close> waits
  for more bytes each time, although \<^verbatim>\<open>compress_chunks\<close> would decode the first response
  to \<open>axfff\<close>.
\<close>

theorem chunked_responses_not_matched:
  "read_events chunked_collaborators ios sync_client
     [(0, chunked_headers @ chunked_axfff), (0, chunked_headers @ chunked_axfff)] =
     Returns (sync_client\<lparr>buffer := chunked_headers @ chunked_axfff @ chunked_headers @ chunked_axfff\<rparr>) \<and>
   requests sync_client = [0, 1] \<and>
   req_class (heap sync_client 0) = REQUEST_SYNC \<and> req_class (heap sync_client 1) = REQUEST_SYNC \<and>
   \<not> responded (heap sync_client 0) \<and> \<not> responded (heap sync_client 1) \<and>
   response_body (heap sync_client 0) = [] \<and> response_body (heap sync_client 1) = [] \<and>
   compress_chunks chunked_axfff = Inr (''axfff'', 18)"
proof -
  let ?one = "chunked_headers @ chunked_axfff"
  let ?two = "chunked_headers @ chunked_axfff @ chunked_headers @ chunked_axfff"
  have len: "length chunked_headers = 47" by (simp add: chunked_headers_def CRLF_def)
  have ne: "chunked_headers \<noteq> []" by (simp add: chunked_headers_def)
  have c: "requests sync_client = [0, 1]" "buffer sync_client = []" "snapd_socket sync_client"
    "heap sync_client r = example_sync" for r
    by (simp_all add: sync_client_def example_client_def)
  have s: "req_class example_sync = REQUEST_SYNC" "\<not> responded example_sync"
    "response_body example_sync = []"
    by (simp_all add: example_sync_def new_request_def)
  have first: "get_first_request (sync_client\<lparr>buffer := b\<rparr>) = Some 0" for b
    by (simp add: get_first_request_def c s SNAPD_IS_REQUEST_ASYNC_def)
  have s1: "read_step chunked_collaborators ios ?one (sync_client\<lparr>buffer := ?one\<rparr>) =
            Stop (Returns (sync_client\<lparr>buffer := ?one\<rparr>, True))"
    by (simp add: read_step_def header_end_chunked first len c
        chunked_collaborators_def read_content_def have_chunked_body_axfff)
  have s2: "read_step chunked_collaborators ios ?two (sync_client\<lparr>buffer := ?two\<rparr>) =
            Stop (Returns (sync_client\<lparr>buffer := ?two\<rparr>, True))"
    by (simp add: read_step_def header_end_chunked first len c
        chunked_collaborators_def read_content_def have_chunked_body_two_responses)
  have e1: "read_cb chunked_collaborators ios sync_client 0 (Received ?one) =
            Returns (sync_client\<lparr>buffer := ?one\<rparr>, True)"
    using s1 by (simp add: read_cb_def c ne read_loop.simps [of _ _ "chunked_headers @ x" for x])
  have e2: "read_cb chunked_collaborators ios (sync_client\<lparr>buffer := ?one\<rparr>) 0 (Received ?one) =
            Returns (sync_client\<lparr>buffer := ?two\<rparr>, True)"
    using s2 by (simp add: read_cb_def ne read_loop.simps [of _ _ "chunked_headers @ x" for x])
  show ?thesis
    using e1 e2 compress_chunks_axfff by (simp add: c s)
qed

end
